theory Spec2Isabelle
  imports Main "HOL-Library.Sublist"
begin

section \<open>Status Store (src/renderer/lib/kanbanStore.ts)\<close>

text \<open>
  The store keeps two module-level caches (\<open>cache\<close>, \<open>reviewPendingCache\<close>, both
  initially \<open>null\<close>) in front of two localStorage items. A localStorage item is modelled by
  what \<open>getItem\<close> followed by \<open>JSON.parse\<close> makes of it: absent (or the empty string, which
  is falsy too), text that \<open>JSON.parse\<close> rejects, a value that is not an object, or an
  object of the shape the store itself writes. \<open>storageThrows\<close> says that every localStorage
  call throws (storage unavailable, quota exceeded); \<open>setItemLog\<close> records the key of every
  \<open>localStorage.setItem\<close> call the store makes.
\<close>

text \<open>\<open>'todo' | 'in-progress' | 'done'\<close>; \<open>done\<close> is the ready-for-review status.\<close>

datatype KanbanStatus = Todo | InProgress | Done

datatype 'a persisted = Corrupt | NotObject | Shape 'a

type_synonym MapShape = "string \<rightharpoonup> KanbanStatus"
type_synonym ReviewPendingShape = "string \<rightharpoonup> bool"

record kanbanStore =
  cache :: "MapShape option"
  reviewPendingCache :: "ReviewPendingShape option"
  statusItem :: "MapShape persisted option"
  pendingItem :: "ReviewPendingShape persisted option"
  storageThrows :: bool
  setItemLog :: "string list"

definition STORAGE_KEY :: string where
  "STORAGE_KEY = ''emdash:kanban:statusByWorkspace''"

definition REVIEW_PENDING_KEY :: string where
  "REVIEW_PENDING_KEY = ''emdash:kanban:reviewPending''"

definition freshStore :: kanbanStore where
  "freshStore = \<lparr> cache = None, reviewPendingCache = None, statusItem = None,
     pendingItem = None, storageThrows = False, setItemLog = [] \<rparr>"

text \<open>\<open>read()\<close>: the cache when it is set; otherwise the parsed item when it is an object;
  otherwise (absent, unparsable, not an object, or storage throwing) the empty map. The
  result becomes the cache.\<close>

definition read :: "kanbanStore \<Rightarrow> MapShape \<times> kanbanStore" where
  "read k =
     (case cache k of
        Some c \<Rightarrow> (c, k)
      | None \<Rightarrow>
          (let m = (if storageThrows k then Map.empty
                    else case statusItem k of Some (Shape p) \<Rightarrow> p | _ \<Rightarrow> Map.empty)
           in (m, k\<lparr>cache := Some m\<rparr>)))"

text \<open>\<open>write(next)\<close> (named \<open>write_store\<close> here, \<open>write\<close> being reserved): sets the cache, then calls \<open>localStorage.setItem\<close>; an exception of
  the storage is swallowed and leaves the item as it was.\<close>

definition write_store :: "MapShape \<Rightarrow> kanbanStore \<Rightarrow> kanbanStore" where
  "write_store next k =
     k\<lparr> cache := Some next,
        statusItem := (if storageThrows k then statusItem k else Some (Shape next)),
        setItemLog := setItemLog k @ [STORAGE_KEY] \<rparr>"

definition getStatus :: "string \<Rightarrow> kanbanStore \<Rightarrow> KanbanStatus \<times> kanbanStore" where
  "getStatus workspaceId k =
     (let (m, k') = read k
      in (case m workspaceId of Some s \<Rightarrow> s | None \<Rightarrow> Todo, k'))"

definition setStatus :: "string \<Rightarrow> KanbanStatus \<Rightarrow> kanbanStore \<Rightarrow> kanbanStore" where
  "setStatus workspaceId status k =
     (let (m, k') = read k in write_store (m(workspaceId \<mapsto> status)) k')"

definition readReviewPending :: "kanbanStore \<Rightarrow> ReviewPendingShape \<times> kanbanStore" where
  "readReviewPending k =
     (case reviewPendingCache k of
        Some c \<Rightarrow> (c, k)
      | None \<Rightarrow>
          (let m = (if storageThrows k then Map.empty
                    else case pendingItem k of Some (Shape p) \<Rightarrow> p | _ \<Rightarrow> Map.empty)
           in (m, k\<lparr>reviewPendingCache := Some m\<rparr>)))"

definition writeReviewPending :: "ReviewPendingShape \<Rightarrow> kanbanStore \<Rightarrow> kanbanStore" where
  "writeReviewPending next k =
     k\<lparr> reviewPendingCache := Some next,
        pendingItem := (if storageThrows k then pendingItem k else Some (Shape next)),
        setItemLog := setItemLog k @ [REVIEW_PENDING_KEY] \<rparr>"

definition setReviewPending :: "string \<Rightarrow> bool \<Rightarrow> kanbanStore \<Rightarrow> kanbanStore" where
  "setReviewPending workspaceId pending k =
     (let (m, k') = readReviewPending k;
          m1 = m(workspaceId \<mapsto> pending);
          m2 = (if \<not> pending then m1(workspaceId := None) else m1)
      in writeReviewPending m2 k')"

definition isReviewPending :: "string \<Rightarrow> kanbanStore \<Rightarrow> bool \<times> kanbanStore" where
  "isReviewPending workspaceId k =
     (let (m, k') = readReviewPending k in (m workspaceId = Some True, k'))"

definition clearReviewPending :: "string \<Rightarrow> kanbanStore \<Rightarrow> kanbanStore" where
  "clearReviewPending workspaceId k = setReviewPending workspaceId False k"

section \<open>JSON values as the renderer reads them\<close>

text \<open>
  The values \<open>JSON.parse\<close> returns. Numbers are restricted to integers; the property list
  of an object holds each key once. \<open>undefined\<close> is \<open>None\<close> of \<open>json option\<close>.
\<close>

datatype json =
    JNull
  | JBool bool
  | JNum int
  | JStr string
  | JArr "json list"
  | JObj "(string \<times> json) list"

text \<open>What \<open>getItem\<close> and \<open>JSON.parse\<close> make of a stored text.\<close>

datatype raw = Unparsable | Parsed json

text \<open>JavaScript truthiness of a value, and of a possibly undefined one.\<close>

fun truthy :: "json \<Rightarrow> bool" where
  "truthy JNull = False"
| "truthy (JBool b) = b"
| "truthy (JNum n) = (n \<noteq> 0)"
| "truthy (JStr s) = (s \<noteq> [])"
| "truthy (JArr _) = True"
| "truthy (JObj _) = True"

fun truthyOpt :: "json option \<Rightarrow> bool" where
  "truthyOpt None = False"
| "truthyOpt (Some v) = truthy v"

text \<open>\<open>v?.key\<close> for the keys read here (none of them is an own property of an array, a
  string, a number or a boolean): the property of an object, \<open>undefined\<close> otherwise.\<close>

fun optProp :: "json \<Rightarrow> string \<Rightarrow> json option" where
  "optProp (JObj kvs) key = map_of kvs key"
| "optProp _ key = None"

text \<open>\<open>String.prototype.trim\<close> on the ASCII white space and line terminators.\<close>

definition isSpace :: "char \<Rightarrow> bool" where
  "isSpace c = (c \<in> set [CHR '' '', CHR 0x09, CHR 0x0A, CHR 0x0B, CHR 0x0C, CHR 0x0D])"

definition trim :: "string \<Rightarrow> string" where
  "trim s = rev (dropWhile isSpace (rev (dropWhile isSpace s)))"

section \<open>Tab Registry (workspaceProviderTabs, src/unnamed/part\_010)\<close>

text \<open>
  \<open>isValidProviderId\<close> comes from the shared provider registry, which is not part of the
  sources at hand; it is a parameter of every function that uses it. \<open>Date.now()\<close> is the
  parameter \<open>now\<close>. Listeners and the snapshot map hold no data of their own (the
  snapshot is the current state object) and are left out; \<open>emit\<close> therefore has no
  counterpart.
\<close>

record ProviderTab =
  tab_id :: string
  provider :: string
  createdAt :: int
  isReview :: "bool option"

record WorkspaceProviderTabsState =
  tabs :: "ProviderTab list"
  activeId :: "string option"

text \<open>The module state: \<open>workspaceStates\<close>, the constant \<open>storageAvailable\<close>, and the
  localStorage items under \<open>STORAGE_PREFIX\<close>, one per workspace id. \<open>tabStorageThrows\<close>
  says that localStorage calls made after module load throw.\<close>

record tabRegistry =
  workspaceStates :: "string \<rightharpoonup> WorkspaceProviderTabsState"
  storageAvailable :: bool
  tabItems :: "string \<rightharpoonup> raw"
  tabStorageThrows :: bool

definition normalizeProvider :: "(string \<Rightarrow> bool) \<Rightarrow> string \<Rightarrow> string \<Rightarrow> string" where
  "normalizeProvider isValidProviderId p fallback =
     (if isValidProviderId p then p
      else if isValidProviderId fallback then fallback
      else ''codex'')"

text \<open>\<open>normalizeProvider\<close> applied to \<open>item?.provider\<close>, which may be any value: only a
  string can be a valid provider id.\<close>

definition normalizeProviderAny :: "(string \<Rightarrow> bool) \<Rightarrow> json option \<Rightarrow> string \<Rightarrow> string" where
  "normalizeProviderAny isValidProviderId p fallback =
     (case p of
        Some (JStr s) \<Rightarrow> normalizeProvider isValidProviderId s fallback
      | _ \<Rightarrow> (if isValidProviderId fallback then fallback else ''codex''))"

text \<open>The composite key \<open>`${tab.provider}:${tab.isReview ? 'review' : 'normal'}`\<close>.\<close>

definition tabKey :: "ProviderTab \<Rightarrow> string" where
  "tabKey t = provider t @ '':'' @ (if isReview t = Some True then ''review'' else ''normal'')"

text \<open>The filter with the \<open>seen\<close> set: a tab is kept when \<open>keep\<close> holds and its key has not
  been seen; a kept tab's key is added.\<close>

fun dedupe :: "(ProviderTab \<Rightarrow> bool) \<Rightarrow> string list \<Rightarrow> ProviderTab list \<Rightarrow> ProviderTab list" where
  "dedupe keep seen [] = []"
| "dedupe keep seen (t # ts) =
     (if \<not> keep t then dedupe keep seen ts
      else if tabKey t \<in> set seen then dedupe keep seen ts
      else t # dedupe keep (tabKey t # seen) ts)"

text \<open>The body of the \<open>map\<close> in \<open>loadFromStorage\<close>: \<open>None\<close> is the \<open>null\<close> that the
  following \<open>filter\<close> drops.\<close>

definition loadItem :: "(string \<Rightarrow> bool) \<Rightarrow> int \<Rightarrow> json \<Rightarrow> ProviderTab option" where
  "loadItem isValidProviderId now item =
     (let p = normalizeProviderAny isValidProviderId (optProp item ''provider'') ''codex'';
          i = (case optProp item ''id'' of
                 Some (JStr s) \<Rightarrow> (if trim s \<noteq> [] then trim s else p)
               | _ \<Rightarrow> p)
      in if \<not> isValidProviderId p then None
         else Some \<lparr> tab_id = i, provider = p,
                     createdAt = (case optProp item ''createdAt'' of Some (JNum n) \<Rightarrow> n | _ \<Rightarrow> now),
                     isReview = None \<rparr>)"

text \<open>The pieces of \<open>loadFromStorage\<close>: \<open>typeof parsed === 'object'\<close> for a value that is
  not \<open>null\<close>, the mapped and filtered \<open>parsed.tabs\<close>, and the choice of \<open>activeId\<close>.\<close>

definition isObject :: "json \<Rightarrow> bool" where
  "isObject parsed = (case parsed of JObj _ \<Rightarrow> True | JArr _ \<Rightarrow> True | _ \<Rightarrow> False)"

definition parsedTabs :: "(string \<Rightarrow> bool) \<Rightarrow> int \<Rightarrow> json \<Rightarrow> ProviderTab list" where
  "parsedTabs isValidProviderId now parsed =
     (case optProp parsed ''tabs'' of
        Some (JArr items) \<Rightarrow> List.map_filter (loadItem isValidProviderId now) items
      | _ \<Rightarrow> [])"

definition loadedActiveId :: "json \<Rightarrow> ProviderTab list \<Rightarrow> string \<Rightarrow> string" where
  "loadedActiveId parsed unique first =
     (case optProp parsed ''activeId'' of
        Some (JStr a) \<Rightarrow> (if \<exists>t \<in> set unique. tab_id t = a then a else first)
      | _ \<Rightarrow> first)"

definition loadFromStorage ::
  "(string \<Rightarrow> bool) \<Rightarrow> string \<Rightarrow> int \<Rightarrow> tabRegistry \<Rightarrow> WorkspaceProviderTabsState option" where
  "loadFromStorage isValidProviderId workspaceId now r =
     (if \<not> storageAvailable r then None
      else if tabStorageThrows r then None
      else case tabItems r workspaceId of
        None \<Rightarrow> None
      | Some Unparsable \<Rightarrow> None
      | Some (Parsed parsed) \<Rightarrow>
          (if \<not> isObject parsed then None
           else
             let unique = dedupe (\<lambda>t. True) [] (parsedTabs isValidProviderId now parsed)
             in case unique of
                  [] \<Rightarrow> None
                | t0 # _ \<Rightarrow>
                    Some \<lparr> tabs = unique,
                           activeId = Some (loadedActiveId parsed unique (tab_id t0)) \<rparr>))"

text \<open>\<open>JSON.stringify(state)\<close>, read back: an undefined \<open>isReview\<close> is not written.\<close>

definition tabJson :: "ProviderTab \<Rightarrow> json" where
  "tabJson t =
     JObj ([(''id'', JStr (tab_id t)), (''provider'', JStr (provider t)),
            (''createdAt'', JNum (createdAt t))]
           @ (case isReview t of None \<Rightarrow> [] | Some b \<Rightarrow> [(''isReview'', JBool b)]))"

definition stateJson :: "WorkspaceProviderTabsState \<Rightarrow> json" where
  "stateJson st =
     JObj [(''tabs'', JArr (map tabJson (tabs st))),
           (''activeId'', (case activeId st of None \<Rightarrow> JNull | Some a \<Rightarrow> JStr a))]"

definition saveToStorage :: "string \<Rightarrow> WorkspaceProviderTabsState \<Rightarrow> tabRegistry \<Rightarrow> tabRegistry" where
  "saveToStorage workspaceId st r =
     (if \<not> storageAvailable r then r
      else if tabStorageThrows r then r
      else r\<lparr>tabItems := (tabItems r)(workspaceId \<mapsto> Parsed (stateJson st))\<rparr>)"

definition createDefaultState ::
  "(string \<Rightarrow> bool) \<Rightarrow> string \<Rightarrow> string \<Rightarrow> int \<Rightarrow> tabRegistry
     \<Rightarrow> WorkspaceProviderTabsState \<times> tabRegistry" where
  "createDefaultState isValidProviderId workspaceId fallbackProvider now r =
     (let p = normalizeProvider isValidProviderId fallbackProvider ''codex'';
          t = \<lparr> tab_id = p, provider = p, createdAt = now, isReview = None \<rparr>;
          st = \<lparr> tabs = [t], activeId = Some (tab_id t) \<rparr>
      in (st, saveToStorage workspaceId st
                (r\<lparr>workspaceStates := (workspaceStates r)(workspaceId \<mapsto> st)\<rparr>)))"

definition ensureWorkspaceState ::
  "(string \<Rightarrow> bool) \<Rightarrow> string \<Rightarrow> string \<Rightarrow> int \<Rightarrow> tabRegistry
     \<Rightarrow> WorkspaceProviderTabsState \<times> tabRegistry" where
  "ensureWorkspaceState isValidProviderId workspaceId fallbackProvider now r =
     (case workspaceStates r workspaceId of
        Some st \<Rightarrow> (st, r)
      | None \<Rightarrow>
          (case loadFromStorage isValidProviderId workspaceId now r of
             Some st \<Rightarrow> (st, r\<lparr>workspaceStates := (workspaceStates r)(workspaceId \<mapsto> st)\<rparr>)
           | None \<Rightarrow> createDefaultState isValidProviderId workspaceId fallbackProvider now r))"

text \<open>The active id that \<open>updateWorkspaceState\<close> commits: the draft's, unless it is
  falsy or the id of no tab, in which case it is the id of the first tab.\<close>

definition keptActiveId :: "string option \<Rightarrow> ProviderTab list \<Rightarrow> string \<Rightarrow> string" where
  "keptActiveId a ts first =
     (case a of
        None \<Rightarrow> first
      | Some i \<Rightarrow> (if i = [] \<or> \<not> (\<exists>t \<in> set ts. tab_id t = i) then first else i))"

text \<open>The tabs that \<open>updateWorkspaceState\<close> commits: providers normalised, then filtered.\<close>

definition normalizedTabs :: "(string \<Rightarrow> bool) \<Rightarrow> string \<Rightarrow> ProviderTab list \<Rightarrow> ProviderTab list" where
  "normalizedTabs isValidProviderId fallbackProvider ts =
     dedupe (\<lambda>t. isValidProviderId (provider t)) []
       (map (\<lambda>t. t\<lparr>provider := normalizeProvider isValidProviderId (provider t) fallbackProvider\<rparr>) ts)"

definition updateWorkspaceState ::
  "(string \<Rightarrow> bool) \<Rightarrow> string \<Rightarrow> string \<Rightarrow> int
     \<Rightarrow> (WorkspaceProviderTabsState \<Rightarrow> WorkspaceProviderTabsState) \<Rightarrow> tabRegistry \<Rightarrow> tabRegistry" where
  "updateWorkspaceState isValidProviderId workspaceId fallbackProvider now mutate r =
     (let (current, r1) = ensureWorkspaceState isValidProviderId workspaceId fallbackProvider now r;
          draft = mutate current;
          ts = normalizedTabs isValidProviderId fallbackProvider (tabs draft)
      in case ts of
           [] \<Rightarrow> snd (createDefaultState isValidProviderId workspaceId fallbackProvider now r1)
         | t0 # _ \<Rightarrow>
             (let st = \<lparr> tabs = ts, activeId = Some (keptActiveId (activeId draft) ts (tab_id t0)) \<rparr>
              in saveToStorage workspaceId st
                   (r1\<lparr>workspaceStates := (workspaceStates r1)(workspaceId \<mapsto> st)\<rparr>)))"

definition addTab ::
  "(string \<Rightarrow> bool) \<Rightarrow> string \<Rightarrow> string \<Rightarrow> string \<Rightarrow> int \<Rightarrow> tabRegistry \<Rightarrow> tabRegistry" where
  "addTab isValidProviderId workspaceId p fallbackProvider now r =
     (if \<not> isValidProviderId p then r
      else updateWorkspaceState isValidProviderId workspaceId fallbackProvider now
        (\<lambda>draft.
           case find (\<lambda>t. provider t = p \<and> isReview t \<noteq> Some True) (tabs draft) of
             Some existing \<Rightarrow> draft\<lparr>activeId := Some (tab_id existing)\<rparr>
           | None \<Rightarrow>
               (let t = \<lparr> tab_id = p, provider = p, createdAt = now, isReview = None \<rparr>
                in draft\<lparr>tabs := tabs draft @ [t], activeId := Some (tab_id t)\<rparr>)) r)"

definition addReviewTab ::
  "(string \<Rightarrow> bool) \<Rightarrow> string \<Rightarrow> string \<Rightarrow> string \<Rightarrow> int \<Rightarrow> tabRegistry
     \<Rightarrow> string \<times> tabRegistry" where
  "addReviewTab isValidProviderId workspaceId p fallbackProvider now r =
     (if \<not> isValidProviderId p then ([], r)
      else
        (let reviewTabId = p @ ''-review''
         in (reviewTabId,
             updateWorkspaceState isValidProviderId workspaceId fallbackProvider now
               (\<lambda>draft.
                  case find (\<lambda>t. isReview t = Some True \<and> provider t = p) (tabs draft) of
                    Some existing \<Rightarrow> draft\<lparr>activeId := Some (tab_id existing)\<rparr>
                  | None \<Rightarrow>
                      (let t = \<lparr> tab_id = reviewTabId, provider = p, createdAt = now,
                                 isReview = Some True \<rparr>
                       in draft\<lparr>tabs := tabs draft @ [t], activeId := Some (tab_id t)\<rparr>)) r)))"


definition setActive ::
  "(string \<Rightarrow> bool) \<Rightarrow> string \<Rightarrow> string \<Rightarrow> string \<Rightarrow> int \<Rightarrow> tabRegistry \<Rightarrow> tabRegistry" where
  "setActive isValidProviderId workspaceId tabId fallbackProvider now r =
     updateWorkspaceState isValidProviderId workspaceId fallbackProvider now
       (\<lambda>draft. if \<exists>t \<in> set (tabs draft). tab_id t = tabId
                then draft\<lparr>activeId := Some tabId\<rparr> else draft) r"

text \<open>\<open>findIndex\<close>: the position of the first element that satisfies the test.\<close>

fun findIndex :: "('a \<Rightarrow> bool) \<Rightarrow> 'a list \<Rightarrow> nat option" where
  "findIndex P [] = None"
| "findIndex P (x # xs) =
     (if P x then Some 0 else map_option Suc (findIndex P xs))"

text \<open>\<open>xs[i]\<close> of JavaScript: \<open>undefined\<close> out of range.\<close>

definition at :: "'a list \<Rightarrow> nat \<Rightarrow> 'a option" where
  "at xs i = (if i < length xs then Some (xs ! i) else None)"

definition closeTab ::
  "(string \<Rightarrow> bool) \<Rightarrow> string \<Rightarrow> string \<Rightarrow> string \<Rightarrow> int \<Rightarrow> tabRegistry \<Rightarrow> tabRegistry" where
  "closeTab isValidProviderId workspaceId tabId fallbackProvider now r =
     (let (st, r1) = ensureWorkspaceState isValidProviderId workspaceId fallbackProvider now r
      in if length (tabs st) \<le> 1 then r1
         else case findIndex (\<lambda>t. tab_id t = tabId) (tabs st) of
           None \<Rightarrow> r1
         | Some idx \<Rightarrow>
             updateWorkspaceState isValidProviderId workspaceId fallbackProvider now
               (\<lambda>draft.
                  let ts = filter (\<lambda>t. tab_id t \<noteq> tabId) (tabs draft)
                  in if activeId draft = Some tabId
                     then
                       (let fb = (case at ts idx of
                                    Some t \<Rightarrow> Some t
                                  | None \<Rightarrow>
                                      (case (if idx = 0 then None else at ts (idx - 1)) of
                                         Some t \<Rightarrow> Some t
                                       | None \<Rightarrow> at ts 0))
                        in draft\<lparr>tabs := ts, activeId := map_option tab_id fb\<rparr>)
                     else draft\<lparr>tabs := ts\<rparr>) r1)"

definition closeReviewTab ::
  "(string \<Rightarrow> bool) \<Rightarrow> string \<Rightarrow> string \<Rightarrow> int \<Rightarrow> tabRegistry \<Rightarrow> tabRegistry" where
  "closeReviewTab isValidProviderId workspaceId fallbackProvider now r =
     (let (st, r1) = ensureWorkspaceState isValidProviderId workspaceId fallbackProvider now r
      in case find (\<lambda>t. isReview t = Some True) (tabs st) of
           None \<Rightarrow> r1
         | Some reviewTab \<Rightarrow> closeTab isValidProviderId workspaceId (tab_id reviewTab) fallbackProvider now r1)"

definition EMPTY_STATE :: WorkspaceProviderTabsState where
  "EMPTY_STATE = \<lparr> tabs = [], activeId = None \<rparr>"

definition getSnapshot ::
  "(string \<Rightarrow> bool) \<Rightarrow> string \<Rightarrow> string \<Rightarrow> int \<Rightarrow> tabRegistry
     \<Rightarrow> WorkspaceProviderTabsState \<times> tabRegistry" where
  "getSnapshot isValidProviderId workspaceId fallbackProvider now r =
     (if workspaceId = [] then (EMPTY_STATE, r)
      else ensureWorkspaceState isValidProviderId workspaceId fallbackProvider now r)"

text \<open>The actions that \<open>useWorkspaceProviderTabs\<close> hands out (all of them do nothing for
  an empty workspace id), and a run of them in order, each at its own time.\<close>

datatype tabAction =
    OpenProviderTab string
  | OpenReviewTab string
  | SetActiveTab string
  | CloseTab string
  | CloseReviewTab

fun applyAction ::
  "(string \<Rightarrow> bool) \<Rightarrow> string \<Rightarrow> string \<Rightarrow> int \<times> tabAction \<Rightarrow> tabRegistry \<Rightarrow> tabRegistry" where
  "applyAction v w fb (now, OpenProviderTab p) r = (if w = [] then r else addTab v w p fb now r)"
| "applyAction v w fb (now, OpenReviewTab p) r =
     (if w = [] then r else snd (addReviewTab v w p fb now r))"
| "applyAction v w fb (now, SetActiveTab i) r = (if w = [] then r else setActive v w i fb now r)"
| "applyAction v w fb (now, CloseTab i) r = (if w = [] then r else closeTab v w i fb now r)"
| "applyAction v w fb (now, CloseReviewTab) r = (if w = [] then r else closeReviewTab v w fb now r)"

fun applyActions ::
  "(string \<Rightarrow> bool) \<Rightarrow> string \<Rightarrow> string \<Rightarrow> (int \<times> tabAction) list \<Rightarrow> tabRegistry \<Rightarrow> tabRegistry" where
  "applyActions v w fb [] r = r"
| "applyActions v w fb (a # as) r = applyActions v w fb as (applyAction v w fb a r)"

text \<open>The registry invariant for one state: not empty, no two tabs with the same provider
  and review flag, and the active id is the id of a member.\<close>

definition tabsInvariant :: "WorkspaceProviderTabsState \<Rightarrow> bool" where
  "tabsInvariant st \<longleftrightarrow>
     tabs st \<noteq> []
     \<and> distinct (map (\<lambda>t. (provider t, isReview t = Some True)) (tabs st))
     \<and> (\<exists>t \<in> set (tabs st). activeId st = Some (tab_id t))"

text \<open>The pair that the composite key stands for.\<close>

definition pairKey :: "ProviderTab \<Rightarrow> string \<times> bool" where
  "pairKey t = (provider t, isReview t = Some True)"

text \<open>The invariant of the registry for one workspace: the state held in memory, if there
  is one, satisfies the invariant.\<close>

definition regInv :: "string \<Rightarrow> tabRegistry \<Rightarrow> bool" where
  "regInv w r = (case workspaceStates r w of None \<Rightarrow> True | Some st \<Rightarrow> tabsInvariant st)"

section \<open>Review Auto-Start Gate (useReviewAgent, in src/renderer/components/MultiAgentWorkspace.tsx)\<close>

text \<open>The \<open>filter\<close> of \<open>canStartReview\<close>: \<open>!t.isReview\<close> for every element in order. Reading
  \<open>isReview\<close> of \<open>null\<close> throws a TypeError, which is \<open>None\<close> here.\<close>

fun nonReviewTabs :: "json list \<Rightarrow> json list option" where
  "nonReviewTabs [] = Some []"
| "nonReviewTabs (t # ts) =
     (if t = JNull then None
      else case nonReviewTabs ts of
             None \<Rightarrow> None
           | Some rest \<Rightarrow> Some (if \<not> truthyOpt (optProp t ''isReview'') then t # rest else rest))"

text \<open>\<open>canStartReview\<close> reads the item that the Tab Registry persists for the workspace;
  every exception inside the \<open>try\<close> block gives \<open>true\<close>.\<close>

definition canStartReview :: "bool \<Rightarrow> string \<Rightarrow> tabRegistry \<Rightarrow> bool" where
  "canStartReview reviewEnabled workspaceId r =
     (if \<not> reviewEnabled then False
      else if tabStorageThrows r then True
      else case tabItems r workspaceId of
        None \<Rightarrow> True
      | Some Unparsable \<Rightarrow> True
      | Some (Parsed parsed) \<Rightarrow>
          (let ts = (case optProp parsed ''tabs'' of Some (JArr items) \<Rightarrow> items | _ \<Rightarrow> [])
           in case nonReviewTabs ts of
                None \<Rightarrow> True
              | Some nonReview \<Rightarrow> length nonReview \<le> 1))"

section \<open>Review Pipeline (src/renderer/lib/reviewRunner.ts)\<close>

datatype ReviewStatus = Idle | Running | Success | Error

datatype lineType = Context | Add | Del

type_synonym Diff = "(string option \<times> string option \<times> lineType) list"

record ReviewFile =
  file_path :: string
  file_status :: string
  additions :: int
  deletions :: int
  diff :: "Diff option"

record ReviewState =
  status :: ReviewStatus
  summary :: string
  files :: "ReviewFile list"
  startedAt :: int
  finishedAt :: "int option"
  error :: "string option"

definition INITIAL_STATE :: ReviewState where
  "INITIAL_STATE = \<lparr> status = Idle, summary = ''No review started yet.'', files = [],
     startedAt = 0, finishedAt = None, error = None \<rparr>"

text \<open>One entry of \<open>res.changes\<close>, as the VCS-status collaborator delivers it.\<close>

record Change =
  change_path :: string
  change_status :: string
  change_additions :: int
  change_deletions :: int

text \<open>
  How the promise of \<open>getGitStatus\<close> settles: rejected with an error \<open>err\<close>, given by
  \<open>err.message\<close> and \<open>String(err)\<close>, or resolved with \<open>res\<close>, given by \<open>res.success\<close>,
  \<open>res.error\<close> and \<open>res.changes\<close> when that is an array. An undefined \<open>res\<close> behaves as
  \<open>GitResult False None None\<close>. For \<open>getFileDiff\<close>: rejected, or resolved with
  \<open>res.success\<close> and \<open>res.diff\<close>.
\<close>

datatype gitReply =
    GitRejected string string
  | GitResult bool "string option" "Change list option"

datatype diffReply =
    DiffRejected
  | DiffResult bool "Diff option"

text \<open>
  A suspended \<open>work\<close> closure: waiting for the VCS status, or inside the loop over the
  filtered changes, waiting for the diff of the current change, with the changes still to
  come and the files pushed so far.
\<close>

datatype task =
    AwaitGitStatus string string int
  | AwaitFileDiff string string int Change "Change list" "ReviewFile list"

text \<open>
  The module state: the maps \<open>states\<close> and \<open>inflight\<close> (a promise is a number), the
  suspended closures and the values of the promises that have resolved, and what the
  outside has seen: the paths passed to \<open>getGitStatus\<close>, the (workspace path, file path)
  pairs passed to \<open>getFileDiff\<close>, and the states handed to \<open>emit\<close>.
\<close>

record runner =
  states :: "string \<rightharpoonup> ReviewState"
  inflight :: "string \<rightharpoonup> nat"
  tasks :: "nat \<rightharpoonup> task"
  resolved :: "nat \<rightharpoonup> ReviewState"
  nextPromise :: nat
  gitStatusCalls :: "string list"
  fileDiffCalls :: "(string \<times> string) list"
  emitted :: "(string \<times> ReviewState) list"

definition freshRunner :: runner where
  "freshRunner = \<lparr> states = Map.empty, inflight = Map.empty, tasks = Map.empty,
     resolved = Map.empty, nextPromise = 0, gitStatusCalls = [], fileDiffCalls = [],
     emitted = [] \<rparr>"

definition getReviewState :: "string \<Rightarrow> runner \<Rightarrow> ReviewState" where
  "getReviewState workspaceId s =
     (case states s workspaceId of Some st \<Rightarrow> st | None \<Rightarrow> INITIAL_STATE)"

definition emit :: "string \<Rightarrow> runner \<Rightarrow> runner" where
  "emit workspaceId s = s\<lparr>emitted := emitted s @ [(workspaceId, getReviewState workspaceId s)]\<rparr>"

text \<open>Decimal text of a number, as a template literal prints it.\<close>

fun showNat :: "nat \<Rightarrow> string" where
  "showNat n =
     (if n < 10 then [''0123456789'' ! n]
      else showNat (n div 10) @ [''0123456789'' ! (n mod 10)])"

definition showInt :: "int \<Rightarrow> string" where
  "showInt i = (if i < 0 then ''-'' @ showNat (nat (- i)) else showNat (nat i))"

definition summarize :: "ReviewFile list \<Rightarrow> string" where
  "summarize fs =
     (let totalAdds = foldl (\<lambda>sum f. sum + additions f) 0 fs;
          totalDels = foldl (\<lambda>sum f. sum + deletions f) 0 fs
      in if length fs > 0
         then showNat (length fs) @ '' file'' @ (if length fs = 1 then [] else ''s'')
              @ '' changed (+'' @ showInt totalAdds @ '' / -'' @ showInt totalDels @ '')''
         else ''No local changes to review.'')"

text \<open>What the promise of a call resolves to: a state that is there already, or whatever
  the in-flight promise resolves to.\<close>

datatype outcome = Now ReviewState | Later nat

text \<open>The end of \<open>work\<close>: the state is stored and emitted, the promise resolves with it,
  and \<open>finally\<close> deletes the in-flight entry of the workspace.\<close>

definition settle :: "nat \<Rightarrow> string \<Rightarrow> ReviewState \<Rightarrow> runner \<Rightarrow> runner" where
  "settle p workspaceId st s =
     (let s1 = emit workspaceId (s\<lparr>states := (states s)(workspaceId \<mapsto> st)\<rparr>)
      in s1\<lparr> resolved := (resolved s1)(p \<mapsto> st),
             tasks := (tasks s1)(p := None),
             inflight := (inflight s1)(workspaceId := None) \<rparr>)"

definition successState :: "ReviewFile list \<Rightarrow> int \<Rightarrow> int \<Rightarrow> ReviewState" where
  "successState fs started now =
     \<lparr> status = Success, summary = summarize fs, files = fs, startedAt = started,
       finishedAt = Some now, error = None \<rparr>"

definition failureState :: "string \<Rightarrow> int \<Rightarrow> int \<Rightarrow> ReviewState" where
  "failureState errorMsg started now =
     \<lparr> status = Error, summary = [], files = [], startedAt = started,
       finishedAt = Some now, error = Some errorMsg \<rparr>"

text \<open>The loop over the filtered changes, up to its next \<open>await\<close>.\<close>

definition nextFile ::
  "nat \<Rightarrow> string \<Rightarrow> string \<Rightarrow> int \<Rightarrow> Change list \<Rightarrow> ReviewFile list \<Rightarrow> int \<Rightarrow> runner \<Rightarrow> runner" where
  "nextFile p workspaceId workspacePath started remaining fs now s =
     (case remaining of
        [] \<Rightarrow> settle p workspaceId (successState fs started now) s
      | c # cs \<Rightarrow>
          s\<lparr> fileDiffCalls := fileDiffCalls s @ [(workspacePath, change_path c)],
             tasks := (tasks s)(p \<mapsto> AwaitFileDiff workspaceId workspacePath started c cs fs) \<rparr>)"

text \<open>\<open>startReview\<close> past its guards, up to the first \<open>await\<close> of \<open>work\<close>: the running state
  is stored and emitted, \<open>getGitStatus\<close> is called, and the promise of \<open>work\<close> is entered
  in \<open>inflight\<close>. The collaborators are taken to be present and to return promises.
  \<open>startReview\<close> is an async function: the promise it returns settles as the one named by
  its \<open>outcome\<close> does. (The summary of the running state ends in an ellipsis character,
  written as three dots here.)\<close>

definition launch :: "string \<Rightarrow> string \<Rightarrow> int \<Rightarrow> runner \<Rightarrow> outcome \<times> runner" where
  "launch workspaceId workspacePath now s =
     (let running = \<lparr> status = Running, summary = ''Starting code review...'',
                        files = [], startedAt = now, finishedAt = None, error = None \<rparr>;
          s1 = emit workspaceId (s\<lparr>states := (states s)(workspaceId \<mapsto> running)\<rparr>);
          p = nextPromise s1
      in (Later p,
          s1\<lparr> nextPromise := Suc p,
               gitStatusCalls := gitStatusCalls s1 @ [workspacePath],
               tasks := (tasks s1)(p \<mapsto> AwaitGitStatus workspaceId workspacePath now),
               inflight := (inflight s1)(workspaceId \<mapsto> p) \<rparr>))"

definition startReview :: "string \<Rightarrow> string \<Rightarrow> int \<Rightarrow> runner \<Rightarrow> outcome \<times> runner" where
  "startReview workspaceId workspacePath now s =
     (case inflight s workspaceId of
        Some pending \<Rightarrow> (Later pending, s)
      | None \<Rightarrow>
          (case states s workspaceId of
             Some existing \<Rightarrow>
               if status existing = Success then (Now existing, s)
               else if status existing = Running then (Now existing, s)
               else launch workspaceId workspacePath now s
           | None \<Rightarrow> launch workspaceId workspacePath now s))"

text \<open>The message that the \<open>catch\<close> block stores when the \<open>try\<close> block throws before the
  loop: \<open>err?.message || String(err)\<close> for a rejected promise, and the message of the
  \<open>Error\<close> thrown for a reply without \<open>success\<close>, which is \<open>res.error\<close> unless that is
  falsy. \<open>None\<close>: nothing is thrown.\<close>

definition gitFailure :: "gitReply \<Rightarrow> string option" where
  "gitFailure reply =
     (case reply of
        GitRejected message text \<Rightarrow> Some (if message \<noteq> [] then message else text)
      | GitResult ok err changes \<Rightarrow>
          if \<not> ok then
            Some (case err of
                    Some e \<Rightarrow> if e \<noteq> [] then e else ''Unable to collect git status for review''
                  | None \<Rightarrow> ''Unable to collect git status for review'')
          else None)"

text \<open>The test of the \<open>filter\<close> over \<open>changes\<close>, and the object pushed to \<open>files\<close>.\<close>

definition keptChange :: "Change \<Rightarrow> bool" where
  "keptChange c \<longleftrightarrow> \<not> prefix ''.emdash/'' (change_path c) \<and> change_path c \<noteq> ''PLANNING.md''"

definition reviewFile :: "Change \<Rightarrow> Diff option \<Rightarrow> ReviewFile" where
  "reviewFile c d =
     \<lparr> file_path = change_path c, file_status = change_status c,
       additions = change_additions c, deletions = change_deletions c, diff = d \<rparr>"

text \<open>The closure resumes when the VCS status settles.\<close>

definition onGitStatus :: "nat \<Rightarrow> gitReply \<Rightarrow> int \<Rightarrow> runner \<Rightarrow> runner" where
  "onGitStatus p reply now s =
     (case tasks s p of
        Some (AwaitGitStatus workspaceId workspacePath started) \<Rightarrow>
          (case gitFailure reply of
             Some errorMsg \<Rightarrow> settle p workspaceId (failureState errorMsg started now) s
           | None \<Rightarrow>
               (let changes = (case reply of GitResult _ _ (Some xs) \<Rightarrow> xs | _ \<Rightarrow> [])
                in nextFile p workspaceId workspacePath started (filter keptChange changes) [] now s))
      | _ \<Rightarrow> s)"

text \<open>\<open>collectFileDiff\<close> never rejects: anything but a successful reply with a diff is
  \<open>undefined\<close>.\<close>

definition collectFileDiff :: "diffReply \<Rightarrow> Diff option" where
  "collectFileDiff reply =
     (case reply of
        DiffRejected \<Rightarrow> None
      | DiffResult ok d \<Rightarrow> (if ok then d else None))"

definition onFileDiff :: "nat \<Rightarrow> diffReply \<Rightarrow> int \<Rightarrow> runner \<Rightarrow> runner" where
  "onFileDiff p reply now s =
     (case tasks s p of
        Some (AwaitFileDiff workspaceId workspacePath started c cs fs) \<Rightarrow>
          nextFile p workspaceId workspacePath started cs
            (fs @ [reviewFile c (collectFileDiff reply)]) now s
      | _ \<Rightarrow> s)"

definition resetReviewState :: "runner \<Rightarrow> runner" where
  "resetReviewState s = s\<lparr> states := Map.empty, inflight := Map.empty \<rparr>"

text \<open>The turns of the event loop that touch the module: a call of \<open>startReview\<close>, a
  collaborator's promise settling, a reset; each at its own time.\<close>

datatype event =
    StartReview string string
  | GitStatusReply nat gitReply
  | FileDiffReply nat diffReply
  | ResetReviewState

fun step :: "int \<times> event \<Rightarrow> runner \<Rightarrow> runner" where
  "step (now, StartReview workspaceId workspacePath) s = snd (startReview workspaceId workspacePath now s)"
| "step (now, GitStatusReply p reply) s = onGitStatus p reply now s"
| "step (now, FileDiffReply p reply) s = onFileDiff p reply now s"
| "step (now, ResetReviewState) s = resetReviewState s"

fun run :: "(int \<times> event) list \<Rightarrow> runner \<Rightarrow> runner" where
  "run [] s = s"
| "run (e # es) s = run es (step e s)"

inductive reachable :: "runner \<Rightarrow> bool" where
  reachable_fresh: "reachable freshRunner"
| reachable_step: "reachable s \<Longrightarrow> reachable (step e s)"

text \<open>An event that is the settling of a collaborator's promise.\<close>

fun isReply :: "int \<times> event \<Rightarrow> bool" where
  "isReply (_, GitStatusReply _ _) = True"
| "isReply (_, FileDiffReply _ _) = True"
| "isReply _ = False"

section \<open>Lifecycle Aggregator (KanbanBoard, src/unnamed/part\_009)\<close>

text \<open>
  The board holds the React state \<open>statusMap\<close>, the project's workspaces, and the timers
  of the idle effect; it works on the Status Store and, through
  \<open>autoStartReviewIfDone\<close> (src/renderer/lib/constants.ts), on the Review Pipeline.

  The effect that subscribes the listeners creates its \<open>idleTimers\<close> map anew on every run,
  and its cleanup only unsubscribes: the timers set by an earlier run stay pending, and
  no map that a listener can reach holds them any more. \<open>effectRun\<close> numbers the runs of
  the effect. A pending timer is the run that set it, its firing time and the workspace
  its callback closes over; the map of a run is the part of the list that carries its
  number. The timers are kept in the order in which they were set, which is the order of
  their firing times, every delay being the same.

  React runs an updater passed to \<open>setStatusMap\<close> either before \<open>setStatusMap\<close> returns or
  at the next render; \<open>reactEager\<close> says which. The new \<open>statusMap\<close> is recorded at once in
  both cases.
\<close>

record Workspace =
  ws_id :: string
  ws_path :: string

record board =
  store :: kanbanStore
  statusMap :: "string \<rightharpoonup> KanbanStatus"
  workspaces :: "Workspace list"
  effectRun :: nat
  idleTimers :: "(nat \<times> nat \<times> Workspace) list"
  clock :: nat
  reactEager :: bool
  reviews :: runner

definition autoStartReviewIfDone :: "Workspace \<Rightarrow> KanbanStatus \<Rightarrow> int \<Rightarrow> runner \<Rightarrow> runner" where
  "autoStartReviewIfDone workspace targetStatus now s =
     (if targetStatus \<noteq> Done then s
      else if ws_id workspace = [] \<or> ws_path workspace = [] then s
      else snd (startReview (ws_id workspace) (ws_path workspace) now s))"

text \<open>\<open>markDone\<close>: the variable \<open>changed\<close> is set inside the updater, so \<open>markDone\<close> reads
  it as true only when the status in \<open>statusMap\<close> was not \<open>done\<close> and React has run the
  updater already. \<open>setStatus\<close> is called in every case.\<close>

definition markDone :: "Workspace \<Rightarrow> board \<Rightarrow> board" where
  "markDone ws b =
     (if ws_id ws = [] \<or> ws_path ws = [] then b
      else
        (let cur = (case statusMap b (ws_id ws) of Some c \<Rightarrow> c | None \<Rightarrow> Todo);
             b1 = (if cur \<noteq> Done then b\<lparr>statusMap := (statusMap b)(ws_id ws \<mapsto> Done)\<rparr> else b);
             changed = (reactEager b \<and> cur \<noteq> Done);
             b2 = b1\<lparr>store := setStatus (ws_id ws) Done (store b1)\<rparr>
         in if changed
            then b2\<lparr>reviews := autoStartReviewIfDone ws Done (int (clock b2)) (reviews b2)\<rparr>
            else b2))"

text \<open>The listener of \<open>subscribeDerivedStatus\<close>; its updater, which calls \<open>setStatus\<close>, is
  recorded as run.\<close>

definition onDerivedStatus :: "Workspace \<Rightarrow> bool \<Rightarrow> board \<Rightarrow> board" where
  "onDerivedStatus ws derivedBusy b =
     (if \<not> derivedBusy then b
      else if statusMap b (ws_id ws) = Some InProgress then b
      else b\<lparr> store := setStatus (ws_id ws) InProgress (store b),
              statusMap := (statusMap b)(ws_id ws \<mapsto> InProgress) \<rparr>)"

text \<open>Whether a pending timer is the entry of the workspace id in the map of a run.\<close>

definition timerOf :: "nat \<Rightarrow> string \<Rightarrow> nat \<times> nat \<times> Workspace \<Rightarrow> bool" where
  "timerOf r workspaceId tw \<longleftrightarrow> fst tw = r \<and> ws_id (snd (snd tw)) = workspaceId"

text \<open>The listener that the current run of the idle effect has subscribed for a workspace:
  a busy signal clears the timer that the map of this run holds for the workspace; an
  idle signal clears it and sets a new one, 10\,000 ms from now.\<close>

definition onActivity :: "Workspace \<Rightarrow> bool \<Rightarrow> board \<Rightarrow> board" where
  "onActivity ws isBusy b =
     (let others = filter (\<lambda>tw. \<not> timerOf (effectRun b) (ws_id ws) tw) (idleTimers b)
      in if isBusy then b\<lparr>idleTimers := others\<rparr>
         else b\<lparr>idleTimers := others @ [(effectRun b, clock b + 10000, ws)]\<rparr>)"

text \<open>The effect runs again (the project or the number of its workspaces has changed): the
  cleanup unsubscribes the listeners of the run before, the new run subscribes its own
  and starts with an empty map. No timer is cleared.\<close>

definition rerunEffect :: "Workspace list \<Rightarrow> board \<Rightarrow> board" where
  "rerunEffect wsList b = b\<lparr> workspaces := wsList, effectRun := Suc (effectRun b) \<rparr>"

text \<open>The callback of a timer, run at its firing time; at its end it deletes the workspace
  id from the map of its own run.\<close>

definition fireTimer :: "nat \<times> nat \<times> Workspace \<Rightarrow> board \<Rightarrow> board" where
  "fireTimer tw b =
     (let ws = snd (snd tw);
          b0 = b\<lparr>clock := fst (snd tw)\<rparr>;
          (cur, k) = getStatus (ws_id ws) (store b0);
          b1 = b0\<lparr>store := k\<rparr>;
          b2 = (if cur = InProgress then markDone ws b1 else b1)
      in b2\<lparr>idleTimers := filter (\<lambda>x. \<not> timerOf (fst tw) (ws_id ws) x) (idleTimers b2)\<rparr>)"

text \<open>\<open>d\<close> milliseconds pass with no other event: the timers that are due fire in order.\<close>

definition elapse :: "nat \<Rightarrow> board \<Rightarrow> board" where
  "elapse d b =
     (let due = filter (\<lambda>tw. fst (snd tw) \<le> clock b + d) (idleTimers b)
      in (fold fireTimer due b)\<lparr>clock := clock b + d\<rparr>)"

definition handleDrop :: "KanbanStatus \<Rightarrow> string \<Rightarrow> board \<Rightarrow> board" where
  "handleDrop target workspaceId b =
     (case find (\<lambda>w. ws_id w = workspaceId) (workspaces b) of
        Some ws \<Rightarrow>
          if target = Done then markDone ws b
          else b\<lparr> store := setStatus workspaceId target (store b),
                  statusMap := (statusMap b)(workspaceId \<mapsto> target) \<rparr>
      | None \<Rightarrow>
          b\<lparr> store := setStatus workspaceId target (store b),
             statusMap := (statusMap b)(workspaceId \<mapsto> target) \<rparr>)"

text \<open>The status of a workspace in the Status Store, as \<open>getStatus\<close> returns it.\<close>

definition statusOf :: "string \<Rightarrow> board \<Rightarrow> KanbanStatus" where
  "statusOf workspaceId b = fst (getStatus workspaceId (store b))"

declare showNat.simps [simp del]

section \<open>Example inputs\<close>

text \<open>The persisted tab collection of the hook's test: two ordinary tabs.\<close>

definition twoTabsItem :: json where
  "twoTabsItem =
     JObj [(''tabs'', JArr [JObj [(''id'', JStr ''codex''), (''provider'', JStr ''codex'')],
                            JObj [(''id'', JStr ''openai''), (''provider'', JStr ''openai'')]]),
           (''activeId'', JStr ''codex'')]"

definition twoTabsRegistry :: tabRegistry where
  "twoTabsRegistry = \<lparr> workspaceStates = Map.empty, storageAvailable = True,
     tabItems = [''ws-auto'' \<mapsto> Parsed twoTabsItem], tabStorageThrows = False \<rparr>"

text \<open>A board with one workspace, nothing stored yet.\<close>

definition oneWorkspaceBoard :: board where
  "oneWorkspaceBoard = \<lparr> store = freshStore, statusMap = Map.empty,
     workspaces = [\<lparr> ws_id = ''workspace-1'', ws_path = ''/test/path/workspace-1'' \<rparr>],
     effectRun = 0, idleTimers = [], clock = 0, reactEager = False, reviews = freshRunner \<rparr>"

text \<open>The workspace of that board, and the board once the workspace has reported busy.\<close>

definition workspace1 :: Workspace where
  "workspace1 = \<lparr> ws_id = ''workspace-1'', ws_path = ''/test/path/workspace-1'' \<rparr>"

definition busyBoard :: board where
  "busyBoard = onDerivedStatus workspace1 True oneWorkspaceBoard"

text \<open>A second workspace, by which the project grows.\<close>

definition workspace2 :: Workspace where
  "workspace2 = \<lparr> ws_id = ''workspace-2'', ws_path = ''/test/path/workspace-2'' \<rparr>"

text \<open>A provider registry for the examples, and a registry as it is when the module has
  just been loaded and nothing is stored.\<close>

definition sampleValid :: "string \<Rightarrow> bool" where
  "sampleValid p = (p \<in> set [''codex'', ''claude'', ''openai''])"

definition emptyRegistry :: tabRegistry where
  "emptyRegistry = \<lparr> workspaceStates = Map.empty, storageAvailable = True,
     tabItems = Map.empty, tabStorageThrows = False \<rparr>"

text \<open>A persisted collection with an ordinary tab and a review tab, not yet loaded.\<close>

definition reviewPersistedRegistry :: tabRegistry where
  "reviewPersistedRegistry = \<lparr> workspaceStates = Map.empty, storageAvailable = True,
     tabItems = [''ws-1'' \<mapsto> Parsed (JObj
       [(''tabs'', JArr
          [JObj [(''id'', JStr ''codex''), (''provider'', JStr ''codex''), (''createdAt'', JNum 1)],
           JObj [(''id'', JStr ''claude-review''), (''provider'', JStr ''claude''),
                 (''createdAt'', JNum 2), (''isReview'', JBool True)]]),
        (''activeId'', JStr ''claude-review'')])],
     tabStorageThrows = False \<rparr>"

text \<open>The changes and the diff reply of the pipeline's tests.\<close>

definition idemChange :: Change where
  "idemChange = \<lparr> change_path = ''a.ts'', change_status = ''M'', change_additions = 1,
     change_deletions = 0 \<rparr>"

definition twoChanges :: "Change list" where
  "twoChanges =
     [\<lparr> change_path = ''src/index.ts'', change_status = ''M'', change_additions = 5,
        change_deletions = 2 \<rparr>,
      \<lparr> change_path = ''README.md'', change_status = ''A'', change_additions = 10,
        change_deletions = 0 \<rparr>]"

definition addLineDiff :: diffReply where
  "addLineDiff = DiffResult True (Some [(Some [], Some [], Add)])"



text \<open>The busy board after an idle signal; after 5 s and a new run of the effect, the
  project having grown; and after 4 s more and a busy signal.\<close>

definition idleBoard :: board where
  "idleBoard = onActivity workspace1 False busyBoard"

definition rerunBoard :: board where
  "rerunBoard = rerunEffect [workspace1, workspace2] (elapse 5000 idleBoard)"

definition busyAgainBoard :: board where
  "busyAgainBoard = onActivity workspace1 True (elapse 4000 rerunBoard)"

section \<open>Properties of the Status Store\<close>

lemma read_cache: "cache (snd (read k)) = Some (fst (read k))"
  by (simp add: read_def Let_def split: option.splits)

lemma read_other_fields:
  "reviewPendingCache (snd (read k)) = reviewPendingCache k"
  "statusItem (snd (read k)) = statusItem k"
  "pendingItem (snd (read k)) = pendingItem k"
  "storageThrows (snd (read k)) = storageThrows k"
  "setItemLog (snd (read k)) = setItemLog k"
  by (simp_all add: read_def Let_def split: option.splits)

lemma setStatus_fields:
  "cache (setStatus w s k) = Some ((fst (read k))(w \<mapsto> s))"
  "reviewPendingCache (setStatus w s k) = reviewPendingCache k"
  "pendingItem (setStatus w s k) = pendingItem k"
  "storageThrows (setStatus w s k) = storageThrows k"
  "setItemLog (setStatus w s k) = setItemLog k @ [STORAGE_KEY]"
  "statusItem (setStatus w s k) =
     (if storageThrows k then statusItem k else Some (Shape ((fst (read k))(w \<mapsto> s))))"
  by (simp_all add: setStatus_def write_store_def read_other_fields split_beta)

lemma isReviewPending_setStatus:
  "fst (isReviewPending v (setStatus w s k)) = fst (isReviewPending v k)"
  by (simp add: isReviewPending_def readReviewPending_def setStatus_fields split_beta Let_def
      split: option.splits)

lemma read_setStatus: "fst (read (setStatus w s k)) = (fst (read k))(w \<mapsto> s)"
  by (simp add: read_def setStatus_fields)

text \<open>
  C5, as the code has it. A second \<open>setStatus(id, s)\<close> with the same \<open>s\<close> leaves the
  cache, the persisted status item, the status read back and the pending-review flag as
  the first call left them; but it writes again: each call makes one
  \<open>localStorage.setItem\<close> call of its own.
\<close>

theorem setStatus_twice:
  "cache (setStatus w s (setStatus w s k)) = cache (setStatus w s k)
   \<and> statusItem (setStatus w s (setStatus w s k)) = statusItem (setStatus w s k)
   \<and> fst (getStatus w (setStatus w s (setStatus w s k))) = s
   \<and> setItemLog (setStatus w s (setStatus w s k)) = setItemLog (setStatus w s k) @ [STORAGE_KEY]
   \<and> reviewPendingCache (setStatus w s (setStatus w s k)) = reviewPendingCache (setStatus w s k)
   \<and> pendingItem (setStatus w s (setStatus w s k)) = pendingItem (setStatus w s k)
   \<and> fst (isReviewPending v (setStatus w s (setStatus w s k)))
       = fst (isReviewPending v (setStatus w s k))"
  by (simp add: setStatus_fields read_setStatus isReviewPending_setStatus getStatus_def split_beta)

theorem setStatus_twice_witness:
  "setItemLog (setStatus ''ws-1'' Done (setStatus ''ws-1'' Done freshStore))
     = setItemLog (setStatus ''ws-1'' Done freshStore) @ [STORAGE_KEY]
   \<and> fst (getStatus ''ws-1'' (setStatus ''ws-1'' Done (setStatus ''ws-1'' Done freshStore))) = Done"
  using setStatus_twice [of "''ws-1''" Done freshStore] by simp

text \<open>C5 as stated fails: on a fresh store, one call makes one write and the second call
  makes a second one.\<close>

theorem setStatus_twice_counterexample:
  "setItemLog (setStatus ''ws-1'' Done freshStore) = [STORAGE_KEY]
   \<and> setItemLog (setStatus ''ws-1'' Done (setStatus ''ws-1'' Done freshStore))
       = [STORAGE_KEY, STORAGE_KEY]"
  by (simp add: setStatus_fields freshStore_def)

section \<open>Properties of the Tab Registry\<close>

lemma tabKey_eq_iff: "tabKey t = tabKey u \<longleftrightarrow> pairKey t = pairKey u"
  by (auto simp: tabKey_def pairKey_def)

lemma dedupe_unseen: "t \<in> set (dedupe keep seen ts) \<Longrightarrow> tabKey t \<notin> set seen"
proof (induction ts arbitrary: seen)
  case Nil
  then show ?case by simp
next
  case (Cons a ts)
  show ?case
  proof (cases "keep a \<and> tabKey a \<notin> set seen")
    case True
    then have "t = a \<or> t \<in> set (dedupe keep (tabKey a # seen) ts)"
      using Cons.prems by auto
    then show ?thesis
    proof
      assume "t = a"
      then show ?thesis using True by simp
    next
      assume "t \<in> set (dedupe keep (tabKey a # seen) ts)"
      from Cons.IH [OF this] show ?thesis by simp
    qed
  next
    case False
    then have "t \<in> set (dedupe keep seen ts)" using Cons.prems by (auto split: if_splits)
    from Cons.IH [OF this] show ?thesis .
  qed
qed

lemma dedupe_keys: "distinct (map tabKey (dedupe keep seen ts))"
proof (induction ts arbitrary: seen)
  case Nil
  then show ?case by simp
next
  case (Cons t ts)
  have "tabKey t \<notin> tabKey ` set (dedupe keep (tabKey t # seen) ts)"
  proof
    assume "tabKey t \<in> tabKey ` set (dedupe keep (tabKey t # seen) ts)"
    then obtain u where u: "u \<in> set (dedupe keep (tabKey t # seen) ts)" "tabKey t = tabKey u"
      by blast
    from dedupe_unseen [OF u(1)] u(2) show False by simp
  qed
  then show ?case using Cons.IH [of seen] Cons.IH [of "tabKey t # seen"] by simp
qed

lemma distinct_map_coarser:
  assumes "distinct (map f xs)" and fg: "\<And>x y. g x = g y \<Longrightarrow> f x = f y"
  shows "distinct (map g xs)"
  using assms(1)
proof (induction xs)
  case Nil
  show ?case by simp
next
  case (Cons x xs)
  have d: "distinct (map f xs)" and n: "f x \<notin> f ` set xs" using Cons.prems by simp_all
  have "g x \<notin> g ` set xs"
  proof
    assume "g x \<in> g ` set xs"
    then obtain y where y: "y \<in> set xs" "g x = g y" by blast
    from fg [OF y(2)] y(1) n show False by blast
  qed
  then show ?case using Cons.IH [OF d] by simp
qed

lemma dedupe_distinct_pairs: "distinct (map pairKey (dedupe keep seen ts))"
  by (rule distinct_map_coarser [of tabKey]) (simp_all add: dedupe_keys tabKey_eq_iff)

lemma tabsInvariant_alt:
  "tabsInvariant st \<longleftrightarrow> tabs st \<noteq> [] \<and> distinct (map pairKey (tabs st))
     \<and> (\<exists>t \<in> set (tabs st). activeId st = Some (tab_id t))"
  unfolding tabsInvariant_def pairKey_def by (rule refl)

lemma loadedActiveId_member:
  "t0 \<in> set unique \<Longrightarrow> \<exists>t \<in> set unique. loadedActiveId parsed unique (tab_id t0) = tab_id t"
  by (auto simp: loadedActiveId_def split: option.splits json.splits)

lemma keptActiveId_member:
  "t0 \<in> set ts \<Longrightarrow> \<exists>t \<in> set ts. keptActiveId a ts (tab_id t0) = tab_id t"
  by (auto simp: keptActiveId_def split: option.splits)

lemma built_invariant:
  assumes "ts = t0 # rest" "distinct (map pairKey ts)" "\<exists>t \<in> set ts. a = tab_id t"
  shows "tabsInvariant \<lparr> tabs = ts, activeId = Some a \<rparr>"
  using assms by (simp add: tabsInvariant_alt)

lemma loadFromStorage_invariant:
  assumes "loadFromStorage v w now r = Some st"
  shows "tabsInvariant st"
proof -
  from assms obtain parsed where p: "tabItems r w = Some (Parsed parsed)"
    by (auto simp: loadFromStorage_def split: if_splits option.splits raw.splits)
  define unique where "unique = dedupe (\<lambda>t. True) [] (parsedTabs v now parsed)"
  from assms p obtain t0 rest where u: "unique = t0 # rest"
    and st: "st = \<lparr> tabs = unique, activeId = Some (loadedActiveId parsed unique (tab_id t0)) \<rparr>"
    by (auto simp: loadFromStorage_def Let_def unique_def split: if_splits list.splits)
  have d: "distinct (map pairKey unique)"
    unfolding unique_def by (rule dedupe_distinct_pairs)
  have m: "\<exists>t \<in> set unique. loadedActiveId parsed unique (tab_id t0) = tab_id t"
    using loadedActiveId_member [of t0 unique parsed] u by simp
  show ?thesis unfolding st using built_invariant [OF u d m] .
qed

lemma default_invariant:
  "tabsInvariant (fst (createDefaultState v w fb now r))"
  by (simp add: createDefaultState_def Let_def tabsInvariant_def)

lemma saveToStorage_states: "workspaceStates (saveToStorage w st r) = workspaceStates r"
  by (simp add: saveToStorage_def)

lemma createDefaultState_states:
  "workspaceStates (snd (createDefaultState v w fb now r)) w = Some (fst (createDefaultState v w fb now r))"
  by (simp add: createDefaultState_def Let_def saveToStorage_states)


lemma ensure_invariant:
  assumes "regInv w r"
  shows "tabsInvariant (fst (ensureWorkspaceState v w fb now r))"
    and "workspaceStates (snd (ensureWorkspaceState v w fb now r)) w
           = Some (fst (ensureWorkspaceState v w fb now r))"
  using assms
  by (auto simp: regInv_def ensureWorkspaceState_def default_invariant createDefaultState_states
      loadFromStorage_invariant split: option.splits)

lemma ensure_regInv: "regInv w r \<Longrightarrow> regInv w (snd (ensureWorkspaceState v w fb now r))"
  using ensure_invariant [of w r v fb now] by (simp add: regInv_def)

lemma normalizedTabs_distinct: "distinct (map pairKey (normalizedTabs v fb ts))"
  unfolding normalizedTabs_def by (rule dedupe_distinct_pairs)

lemma update_regInv: "regInv w (updateWorkspaceState v w fb now mutate r)"
proof -
  obtain cur r1 where e: "ensureWorkspaceState v w fb now r = (cur, r1)" by force
  define ts where "ts = normalizedTabs v fb (tabs (mutate cur))"
  show ?thesis
  proof (cases ts)
    case Nil
    then show ?thesis
      using default_invariant [of v w fb now r1] createDefaultState_states [of v w fb now r1]
      by (simp add: updateWorkspaceState_def e ts_def [symmetric] regInv_def)
  next
    case (Cons t0 rest)
    have d: "distinct (map pairKey ts)" unfolding ts_def by (rule normalizedTabs_distinct)
    have m: "\<exists>t \<in> set ts. keptActiveId (activeId (mutate cur)) ts (tab_id t0) = tab_id t"
      using keptActiveId_member [of t0 ts] Cons by simp
    show ?thesis
      using built_invariant [OF Cons d m]
      by (simp add: updateWorkspaceState_def e ts_def [symmetric] Cons regInv_def
          saveToStorage_states Let_def)
  qed
qed

lemma closeTab_regInv: "regInv w r \<Longrightarrow> regInv w (closeTab v w i fb now r)"
  using ensure_regInv [of w r v fb now]
  by (auto simp: closeTab_def split_beta Let_def update_regInv split: option.splits)

lemma closeReviewTab_regInv: "regInv w r \<Longrightarrow> regInv w (closeReviewTab v w fb now r)"
  using ensure_regInv [of w r v fb now]
  by (auto simp: closeReviewTab_def split_beta Let_def closeTab_regInv split: option.splits)

lemma applyAction_regInv: "regInv w r \<Longrightarrow> regInv w (applyAction v w fb a r)"
proof -
  assume i: "regInv w r"
  obtain now act where a: "a = (now, act)" by force
  show ?thesis
    using i unfolding a
    by (cases act)
      (auto simp: addTab_def addReviewTab_def setActive_def update_regInv closeTab_regInv
        closeReviewTab_regInv Let_def)
qed

lemma applyActions_regInv: "regInv w r \<Longrightarrow> regInv w (applyActions v w fb as r)"
  by (induction as arbitrary: r) (simp_all add: applyAction_regInv)

text \<open>
  C4. For a workspace (its id is not empty), starting from a registry that holds no state
  for it in memory (whatever is persisted), after any sequence of \<open>openProviderTab\<close>,
  \<open>openReviewTab\<close>, \<open>setActiveTab\<close>, \<open>closeTab\<close> and \<open>closeReviewTab\<close> calls the tab
  collection that the hook reads is not empty, holds no two tabs with the same provider
  and review flag, and its \<open>activeId\<close> is the id of one of its tabs.
\<close>

theorem tab_registry_invariant:
  assumes "w \<noteq> []" and "workspaceStates r w = None"
  shows "tabsInvariant (fst (getSnapshot v w fb now (applyActions v w fb actions r)))"
proof -
  have "regInv w r" using assms(2) by (simp add: regInv_def)
  then have "regInv w (applyActions v w fb actions r)" by (rule applyActions_regInv)
  then show ?thesis unfolding getSnapshot_def using assms(1) by (simp add: ensure_invariant(1))
qed

theorem tab_registry_invariant_witness:
  "''ws-1'' \<noteq> [] \<and> workspaceStates emptyRegistry ''ws-1'' = None
   \<and> tabsInvariant (fst (getSnapshot sampleValid ''ws-1'' ''codex'' 9
        (applyActions sampleValid ''ws-1'' ''codex''
           [(1, OpenProviderTab ''claude''), (2, OpenReviewTab ''claude''), (3, CloseTab ''codex'')]
           emptyRegistry)))"
proof -
  have n: "''ws-1'' \<noteq> []" by simp
  have h: "workspaceStates emptyRegistry ''ws-1'' = None" by (simp add: emptyRegistry_def)
  show ?thesis by (intro conjI n h tab_registry_invariant [OF n h])
qed

text \<open>The run of the witness, computed: opening claude, opening its review tab and closing
  the default codex tab leaves the two claude tabs.\<close>

lemma tab_registry_example_run:
  "map tab_id (tabs (fst (getSnapshot sampleValid ''ws-1'' ''codex'' 9
        (applyActions sampleValid ''ws-1'' ''codex''
           [(1, OpenProviderTab ''claude''), (2, OpenReviewTab ''claude''), (3, CloseTab ''codex'')]
           emptyRegistry)))) = [''claude'', ''claude-review'']"
  by (simp add: getSnapshot_def emptyRegistry_def sampleValid_def addTab_def addReviewTab_def
      closeTab_def updateWorkspaceState_def ensureWorkspaceState_def loadFromStorage_def
      createDefaultState_def normalizeProvider_def saveToStorage_def normalizedTabs_def
      tabKey_def keptActiveId_def at_def Let_def)















section \<open>Properties of the Review Auto-Start Gate\<close>

text \<open>
  C1 at the input of the hook's test: review enabled, two ordinary tabs persisted for the
  workspace, and the pending-review flag set. \<open>canStartReview\<close> does not read the flag and
  returns false.
\<close>

theorem canStartReview_pending_two_tabs:
  "fst (isReviewPending ''ws-auto'' (setReviewPending ''ws-auto'' True freshStore))
   \<and> \<not> canStartReview True ''ws-auto'' twoTabsRegistry"
  by (simp add: isReviewPending_def setReviewPending_def readReviewPending_def
      writeReviewPending_def freshStore_def canStartReview_def twoTabsRegistry_def
      twoTabsItem_def Let_def)

text \<open>The cases in which the code agrees with the contract: review disabled, nothing
  persisted, and a single ordinary tab beside a review tab.\<close>

lemma canStartReview_other_cases:
  "\<not> canStartReview False w r"
  "\<not> tabStorageThrows r \<Longrightarrow> tabItems r w = None \<Longrightarrow> canStartReview True w r"
  "canStartReview True ''ws-1'' reviewPersistedRegistry"
  by (simp_all add: canStartReview_def reviewPersistedRegistry_def Let_def)

section \<open>Properties of the Review Pipeline\<close>

lemma settle_fields:
  "states (settle p w st s) = (states s)(w \<mapsto> st)"
  "inflight (settle p w st s) = (inflight s)(w := None)"
  "tasks (settle p w st s) = (tasks s)(p := None)"
  "resolved (settle p w st s) = (resolved s)(p \<mapsto> st)"
  "gitStatusCalls (settle p w st s) = gitStatusCalls s"
  "fileDiffCalls (settle p w st s) = fileDiffCalls s"
  "nextPromise (settle p w st s) = nextPromise s"
  by (simp_all add: settle_def emit_def Let_def)

lemma launch_fields:
  "fst (launch w path now s) = Later (nextPromise s)"
  "states (snd (launch w path now s)) w' =
     (if w' = w then Some \<lparr> status = Running, summary = ''Starting code review...'', files = [],
                            startedAt = now, finishedAt = None, error = None \<rparr>
      else states s w')"
  "inflight (snd (launch w path now s)) = (inflight s)(w \<mapsto> nextPromise s)"
  "tasks (snd (launch w path now s)) = (tasks s)(nextPromise s \<mapsto> AwaitGitStatus w path now)"
  "gitStatusCalls (snd (launch w path now s)) = gitStatusCalls s @ [path]"
  "fileDiffCalls (snd (launch w path now s)) = fileDiffCalls s"
  by (simp_all add: launch_def emit_def Let_def)

lemma nextFile_inflight:
  "inflight (nextFile p w path started cs fs now s) w' = Some q \<Longrightarrow> inflight s w' = Some q"
  by (auto simp: nextFile_def settle_fields split: list.splits if_splits)

lemma nextFile_gitStatusCalls:
  "gitStatusCalls (nextFile p w path started cs fs now s) = gitStatusCalls s"
  by (simp add: nextFile_def settle_fields split: list.splits)

lemma nextFile_running:
  assumes "inflight (nextFile p w path started cs fs now s) w' = Some q"
  shows "states (nextFile p w path started cs fs now s) w' = states s w'"
  using assms by (auto simp: nextFile_def settle_fields split: list.splits if_splits)

lemma onGitStatus_inflight:
  "inflight (onGitStatus p reply now s) w = Some q \<Longrightarrow> inflight s w = Some q"
  by (auto simp: onGitStatus_def settle_fields Let_def dest: nextFile_inflight
      split: option.splits task.splits if_splits)

lemma onFileDiff_inflight:
  "inflight (onFileDiff p reply now s) w = Some q \<Longrightarrow> inflight s w = Some q"
  by (auto simp: onFileDiff_def dest: nextFile_inflight split: option.splits task.splits)

lemma onGitStatus_gitStatusCalls: "gitStatusCalls (onGitStatus p reply now s) = gitStatusCalls s"
  by (simp add: onGitStatus_def settle_fields nextFile_gitStatusCalls Let_def
      split: option.splits task.splits)

lemma onFileDiff_gitStatusCalls: "gitStatusCalls (onFileDiff p reply now s) = gitStatusCalls s"
  by (simp add: onFileDiff_def nextFile_gitStatusCalls split: option.splits task.splits)

lemma reply_step:
  assumes "isReply e"
  shows "gitStatusCalls (step e s) = gitStatusCalls s"
    and "inflight (step e s) w = Some q \<Longrightarrow> inflight s w = Some q"
proof -
  obtain now ev where e: "e = (now, ev)" by force
  show "gitStatusCalls (step e s) = gitStatusCalls s"
    using assms unfolding e
    by (cases ev) (simp_all add: onGitStatus_gitStatusCalls onFileDiff_gitStatusCalls)
  show "inflight (step e s) w = Some q \<Longrightarrow> inflight s w = Some q"
    using assms unfolding e
    by (cases ev) (auto dest: onGitStatus_inflight onFileDiff_inflight)
qed

lemma replies_run:
  assumes "\<forall>e \<in> set es. isReply e"
  shows "gitStatusCalls (run es s) = gitStatusCalls s"
    and "inflight (run es s) w = Some q \<Longrightarrow> inflight s w = Some q"
  using assms
proof (induction es arbitrary: s)
  case Nil
  { case 1 show ?case by simp }
  { case 2 then show ?case by simp }
next
  case (Cons e es)
  { case 1
    then show ?case using Cons.IH(1) [of "step e s"] reply_step(1) [of e s] by simp }
  { case 2
    then have "inflight (step e s) w = Some q" using Cons.IH(2) [of "step e s"] by simp
    then show ?case using 2 reply_step(2) [of e s w q] by simp }
qed

text \<open>
  C3. A call of \<open>startReview\<close> starts a computation and returns its promise \<open>p\<close>. While the
  computation is in flight, through any replies of the collaborators that leave it in
  flight, a further call for the same workspace returns the same promise \<open>p\<close>, changes
  nothing, and the VCS-status collaborator has been called once for the two calls.
\<close>

theorem startReview_single_flight:
  assumes "inflight s0 w = None"
      and "startReview w path now s0 = (Later p, s1)"
      and "\<forall>e \<in> set es. isReply e"
      and "inflight (run es s1) w \<noteq> None"
  shows "startReview w path' now' (run es s1) = (Later p, run es s1)
         \<and> gitStatusCalls (snd (startReview w path' now' (run es s1))) = gitStatusCalls s0 @ [path]"
proof -
  have l: "(Later p, s1) = launch w path now s0"
    using assms(1,2) by (auto simp: startReview_def split: option.splits if_splits)
  have p: "inflight s1 w = Some p" and g: "gitStatusCalls s1 = gitStatusCalls s0 @ [path]"
    using launch_fields(1,3,5) [of w path now s0] l [symmetric] by auto
  from assms(4) obtain q where q: "inflight (run es s1) w = Some q" by blast
  from replies_run(2) [OF assms(3) q] p have "q = p" by simp
  with q have "startReview w path' now' (run es s1) = (Later p, run es s1)"
    by (simp add: startReview_def)
  then show ?thesis using replies_run(1) [OF assms(3), of s1] g by simp
qed

text \<open>In every reachable state a workspace with an in-flight entry has a running state.\<close>

lemma settle_inv:
  assumes "\<And>w' q. inflight s w' = Some q \<Longrightarrow> \<exists>st. states s w' = Some st \<and> status st = Running"
      and "inflight (settle p w st0 s) w' = Some q"
  shows "\<exists>st. states (settle p w st0 s) w' = Some st \<and> status st = Running"
  using assms by (auto simp: settle_fields split: if_splits)

lemma nextFile_inv:
  assumes "\<And>w' q. inflight s w' = Some q \<Longrightarrow> \<exists>st. states s w' = Some st \<and> status st = Running"
      and "inflight (nextFile p w path started cs fs now s) w' = Some q"
  shows "\<exists>st. states (nextFile p w path started cs fs now s) w' = Some st \<and> status st = Running"
  using assms nextFile_running [OF assms(2)] nextFile_inflight [OF assms(2)] by simp

lemma step_inv:
  assumes inv: "\<And>w' q. inflight s w' = Some q \<Longrightarrow> \<exists>st. states s w' = Some st \<and> status st = Running"
      and i: "inflight (step e s) w = Some q"
  shows "\<exists>st. states (step e s) w = Some st \<and> status st = Running"
proof -
  obtain now ev where e: "e = (now, ev)" by force
  show ?thesis
  proof (cases ev)
    case (StartReview w0 path)
    show ?thesis
      using i inv [of w q] unfolding e StartReview
      by (auto simp: startReview_def launch_fields split: option.splits if_splits)
  next
    case (GitStatusReply p reply)
    show ?thesis
    proof (cases "tasks s p")
      case None
      then show ?thesis using i inv [of w q] unfolding e GitStatusReply by (simp add: onGitStatus_def)
    next
      case (Some t)
      show ?thesis
      proof (cases t)
        case (AwaitGitStatus w0 path started)
        show ?thesis
        proof (cases "gitFailure reply")
          case None
          then show ?thesis
            using i nextFile_inv [OF inv] unfolding e GitStatusReply
            by (simp add: onGitStatus_def Some AwaitGitStatus Let_def)
        next
          case (Some m)
          then show ?thesis
            using i settle_inv [OF inv] unfolding e GitStatusReply
            by (simp add: onGitStatus_def \<open>tasks s p = Some t\<close> AwaitGitStatus)
        qed
      next
        case (AwaitFileDiff w0 path started c cs fs)
        then show ?thesis using i inv [of w q] Some unfolding e GitStatusReply
          by (simp add: onGitStatus_def)
      qed
    qed
  next
    case (FileDiffReply p reply)
    show ?thesis
    proof (cases "tasks s p")
      case None
      then show ?thesis using i inv [of w q] unfolding e FileDiffReply by (simp add: onFileDiff_def)
    next
      case (Some t)
      show ?thesis
      proof (cases t)
        case (AwaitGitStatus w0 path started)
        then show ?thesis using i inv [of w q] Some unfolding e FileDiffReply
          by (simp add: onFileDiff_def)
      next
        case (AwaitFileDiff w0 path started c cs fs)
        then show ?thesis
          using i nextFile_inv [OF inv] Some unfolding e FileDiffReply
          by (simp add: onFileDiff_def)
      qed
    qed
  next
    case ResetReviewState
    then show ?thesis using i unfolding e by (simp add: resetReviewState_def)
  qed
qed

lemma reachable_inflight_running:
  "reachable s \<Longrightarrow> inflight s w = Some q \<Longrightarrow> \<exists>st. states s w = Some st \<and> status st = Running"
proof (induction arbitrary: w q rule: reachable.induct)
  case reachable_fresh
  then show ?case by (simp add: freshRunner_def)
next
  case (reachable_step s e)
  show ?case by (rule step_inv [OF reachable_step.IH reachable_step.prems])
qed

text \<open>
  C8. In every reachable state, a workspace whose recorded state is a success gets that
  very state back from \<open>startReview\<close>, and the module state, with the logs of the
  collaborator calls, is unchanged; after \<open>resetReviewState\<close> the next call starts a new
  computation and calls the VCS-status collaborator.
\<close>

theorem success_is_cached:
  assumes "reachable s" and "states s w = Some st" and "status st = Success"
  shows "startReview w path now s = (Now st, s)
         \<and> fst (startReview w path now (resetReviewState s)) = Later (nextPromise s)
         \<and> gitStatusCalls (snd (startReview w path now (resetReviewState s))) = gitStatusCalls s @ [path]"
proof -
  have "inflight s w = None"
  proof (cases "inflight s w")
    case None
    then show ?thesis .
  next
    case (Some q)
    from reachable_inflight_running [OF assms(1) Some] assms(2,3) show ?thesis by simp
  qed
  then show ?thesis
    using assms(2,3)
    by (simp add: startReview_def resetReviewState_def launch_def emit_def Let_def)
qed

lemma reachable_run: "reachable s \<Longrightarrow> reachable (run es s)"
  by (induction es arbitrary: s) (simp_all add: reachable_step)


lemma foldl_plus: "foldl (\<lambda>sum f. sum + g f) (a::int) fs = a + sum_list (map g fs)"
  by (induction fs arbitrary: a) simp_all

lemma summarize_eq:
  "summarize fs =
     (if fs = [] then ''No local changes to review.''
      else showNat (length fs) @ '' file'' @ (if length fs = 1 then [] else ''s'')
           @ '' changed (+'' @ showInt (sum_list (map additions fs))
           @ '' / -'' @ showInt (sum_list (map deletions fs)) @ '')'')"
  by (simp add: summarize_def foldl_plus Let_def)

text \<open>The loop over the files: one diff reply per remaining change ends in the success
  state over all of them.\<close>

lemma diff_loop:
  assumes "tasks s p = Some (AwaitFileDiff w path started c cs fs)"
      and "length ds = Suc (length cs)"
  shows "\<exists>t. resolved (run (map (\<lambda>(t, d). (t, FileDiffReply p d)) ds) s) p
           = Some (successState (fs @ map2 reviewFile (c # cs) (map (collectFileDiff \<circ> snd) ds)) started t)
         \<and> states (run (map (\<lambda>(t, d). (t, FileDiffReply p d)) ds) s) w
           = Some (successState (fs @ map2 reviewFile (c # cs) (map (collectFileDiff \<circ> snd) ds)) started t)"
  using assms
proof (induction cs arbitrary: s c fs ds)
  case Nil
  then obtain t d where ds: "ds = [(t, d)]" by (cases ds) auto
  show ?case
    unfolding ds using Nil.prems(1)
    by (auto simp: onFileDiff_def nextFile_def settle_fields)
next
  case (Cons c' cs)
  then obtain t d ds' where ds: "ds = (t, d) # ds'" and l: "length ds' = Suc (length cs)"
    by (cases ds) auto
  define s' where "s' = onFileDiff p d t s"
  have t': "tasks s' p = Some (AwaitFileDiff w path started c' cs (fs @ [reviewFile c (collectFileDiff d)]))"
    unfolding s'_def using Cons.prems(1) by (simp add: onFileDiff_def nextFile_def)
  from Cons.IH [OF t' l] show ?case
    unfolding ds by (simp add: s'_def)
qed

lemma map2_reviewFile:
  assumes "length xs = length ys"
  shows "map additions (map2 reviewFile xs ys) = map change_additions xs"
    and "map deletions (map2 reviewFile xs ys) = map change_deletions xs"
    and "map file_path (map2 reviewFile xs ys) = map change_path xs"
  using assms by (induction xs ys rule: list_induct2) (simp_all add: reviewFile_def)

text \<open>
  C9. When the VCS status succeeds and one diff reply arrives per kept change, the promise
  resolves with a success state whose files are the kept changes, in order, and whose
  summary is the no-local-changes message when no change is kept, and otherwise states
  the number of files and the sums of the additions and of the deletions.
\<close>

theorem review_success_summary:
  assumes "tasks s p = Some (AwaitGitStatus w path started)"
      and "length ds = length (filter keptChange cs)"
  shows "\<exists>st. resolved (run ((t0, GitStatusReply p (GitResult True err (Some cs)))
                             # map (\<lambda>(t, d). (t, FileDiffReply p d)) ds) s) p = Some st
           \<and> states (run ((t0, GitStatusReply p (GitResult True err (Some cs)))
                             # map (\<lambda>(t, d). (t, FileDiffReply p d)) ds) s) w = Some st
           \<and> status st = Success
           \<and> files st = map2 reviewFile (filter keptChange cs) (map (collectFileDiff \<circ> snd) ds)
           \<and> summary st =
               (if filter keptChange cs = [] then ''No local changes to review.''
                else showNat (length (filter keptChange cs)) @ '' file''
                     @ (if length (filter keptChange cs) = 1 then [] else ''s'')
                     @ '' changed (+''
                     @ showInt (sum_list (map change_additions (filter keptChange cs)))
                     @ '' / -''
                     @ showInt (sum_list (map change_deletions (filter keptChange cs))) @ '')'')"
proof (cases "filter keptChange cs")
  case Nil
  then have ds: "ds = []" using assms(2) by simp
  show ?thesis
    unfolding ds using assms(1) Nil
    by (simp add: onGitStatus_def gitFailure_def nextFile_def settle_fields successState_def
        summarize_eq)
next
  case (Cons c rest)
  define s' where "s' = onGitStatus p (GitResult True err (Some cs)) t0 s"
  have t': "tasks s' p = Some (AwaitFileDiff w path started c rest [])"
    unfolding s'_def using assms(1) Cons
    by (simp add: onGitStatus_def gitFailure_def nextFile_def)
  have l: "length ds = Suc (length rest)" using assms(2) Cons by simp
  define fs where "fs = map2 reviewFile (c # rest) (map (collectFileDiff \<circ> snd) ds)"
  from diff_loop [OF t' l] obtain t where
    r: "resolved (run (map (\<lambda>(t, d). (t, FileDiffReply p d)) ds) s') p
          = Some (successState fs started t)"
    and st: "states (run (map (\<lambda>(t, d). (t, FileDiffReply p d)) ds) s') w
          = Some (successState fs started t)"
    unfolding fs_def by auto
  have l2: "length (c # rest) = length (map (collectFileDiff \<circ> snd) ds)" using l by simp
  have len: "length fs = Suc (length rest)" unfolding fs_def using l by simp
  have adds: "map additions fs = map change_additions (c # rest)"
    and dels: "map deletions fs = map change_deletions (c # rest)"
    unfolding fs_def by (rule map2_reviewFile [OF l2])+
  have ne: "fs \<noteq> []" using len by auto
  have sm: "summarize fs =
     showNat (Suc (length rest)) @ '' file'' @ (if Suc (length rest) = 1 then [] else ''s'')
       @ '' changed (+'' @ showInt (sum_list (map change_additions (c # rest)))
       @ '' / -'' @ showInt (sum_list (map change_deletions (c # rest))) @ '')''"
    unfolding summarize_eq adds dels len using ne by simp
  have run: "run ((t0, GitStatusReply p (GitResult True err (Some cs)))
                   # map (\<lambda>(t, d). (t, FileDiffReply p d)) ds) s
             = run (map (\<lambda>(t, d). (t, FileDiffReply p d)) ds) s'"
    by (simp add: s'_def)
  show ?thesis
    unfolding run r st Cons fs_def [symmetric]
    by (simp add: successState_def sm)
qed

lemmas runner_eval = startReview_def launch_def emit_def freshRunner_def getReviewState_def
  onGitStatus_def onFileDiff_def gitFailure_def nextFile_def settle_def successState_def
  failureState_def collectFileDiff_def reviewFile_def keptChange_def Let_def

lemma show_examples: "showNat 2 = ''2''" "showInt 15 = ''15''" "showInt 2 = ''2''"
  by (simp_all add: showNat.simps showInt_def)

theorem startReview_single_flight_witness:
  "startReview ''ws-idempotent'' ''/tmp/ws-idem'' 2
     (run [(1, GitStatusReply 0 (GitResult True None (Some [idemChange])))]
        (snd (startReview ''ws-idempotent'' ''/tmp/ws-idem'' 0 freshRunner)))
   = (Later 0, run [(1, GitStatusReply 0 (GitResult True None (Some [idemChange])))]
        (snd (startReview ''ws-idempotent'' ''/tmp/ws-idem'' 0 freshRunner)))
   \<and> gitStatusCalls (snd (startReview ''ws-idempotent'' ''/tmp/ws-idem'' 2
     (run [(1, GitStatusReply 0 (GitResult True None (Some [idemChange])))]
        (snd (startReview ''ws-idempotent'' ''/tmp/ws-idem'' 0 freshRunner))))) = [''/tmp/ws-idem'']"
proof -
  have h1: "inflight freshRunner ''ws-idempotent'' = None" by (simp add: freshRunner_def)
  have h2: "startReview ''ws-idempotent'' ''/tmp/ws-idem'' 0 freshRunner
     = (Later 0, snd (startReview ''ws-idempotent'' ''/tmp/ws-idem'' 0 freshRunner))"
    by (simp add: runner_eval)
  have h3: "\<forall>e \<in> set [(1, GitStatusReply 0 (GitResult True None (Some [idemChange])))]. isReply e"
    by simp
  have h4: "inflight (run [(1, GitStatusReply 0 (GitResult True None (Some [idemChange])))]
        (snd (startReview ''ws-idempotent'' ''/tmp/ws-idem'' 0 freshRunner))) ''ws-idempotent'' \<noteq> None"
    by (simp add: runner_eval idemChange_def)
  have g: "gitStatusCalls freshRunner = []" by (simp add: freshRunner_def)
  from startReview_single_flight [OF h1 h2 h3 h4, of "''/tmp/ws-idem''" 2]
  show ?thesis unfolding g append_Nil .
qed


text \<open>The state of the failing scenario, computed: the error is the reply's message.\<close>

lemma vcs_failure_boom:
  "map_option error (resolved (onGitStatus 0 (GitResult False (Some ''boom'') None) 1
      (snd (startReview ''ws-fail'' ''/tmp/ws-fail'' 0 freshRunner))) 0) = Some (Some ''boom'')"
  by (simp add: runner_eval)

theorem success_is_cached_witness:
  "reachable (run [(0, StartReview ''ws-empty'' ''/tmp/ws-empty''),
                   (1, GitStatusReply 0 (GitResult True None (Some [])))] freshRunner)
   \<and> states (run [(0, StartReview ''ws-empty'' ''/tmp/ws-empty''),
                   (1, GitStatusReply 0 (GitResult True None (Some [])))] freshRunner) ''ws-empty''
       = Some (successState [] 0 1)
   \<and> startReview ''ws-empty'' ''/tmp/ws-empty'' 2
        (run [(0, StartReview ''ws-empty'' ''/tmp/ws-empty''),
              (1, GitStatusReply 0 (GitResult True None (Some [])))] freshRunner)
       = (Now (successState [] 0 1),
          run [(0, StartReview ''ws-empty'' ''/tmp/ws-empty''),
               (1, GitStatusReply 0 (GitResult True None (Some [])))] freshRunner)"
proof -
  have h1: "reachable (run [(0, StartReview ''ws-empty'' ''/tmp/ws-empty''),
                   (1, GitStatusReply 0 (GitResult True None (Some [])))] freshRunner)"
    by (rule reachable_run [OF reachable_fresh])
  have h2: "states (run [(0, StartReview ''ws-empty'' ''/tmp/ws-empty''),
                   (1, GitStatusReply 0 (GitResult True None (Some [])))] freshRunner) ''ws-empty''
       = Some (successState [] 0 1)"
    by (simp add: runner_eval)
  have h3: "status (successState [] 0 1) = Success" by (simp add: successState_def)
  from success_is_cached [OF h1 h2 h3, of "''/tmp/ws-empty''" 2] h1 h2 show ?thesis by simp
qed

theorem review_success_summary_witness:
  "tasks (snd (startReview ''ws-1'' ''/tmp/ws-1'' 0 freshRunner)) 0
     = Some (AwaitGitStatus ''ws-1'' ''/tmp/ws-1'' 0)
   \<and> (\<exists>st. resolved (run ((1, GitStatusReply 0 (GitResult True None (Some twoChanges)))
                            # map (\<lambda>(t, d). (t, FileDiffReply 0 d))
                                [(2, addLineDiff), (3, addLineDiff)])
                        (snd (startReview ''ws-1'' ''/tmp/ws-1'' 0 freshRunner))) 0 = Some st
         \<and> status st = Success \<and> length (files st) = 2
         \<and> summary st = ''2 files changed (+15 / -2)''
         \<and> sublist ''2 files'' (summary st) \<and> sublist ''+15'' (summary st)
         \<and> sublist ''-2'' (summary st))"
proof -
  let ?s = "snd (startReview ''ws-1'' ''/tmp/ws-1'' 0 freshRunner)"
  let ?ds = "[(2::int, addLineDiff), (3, addLineDiff)]"
  let ?evs = "(1, GitStatusReply 0 (GitResult True None (Some twoChanges)))
               # map (\<lambda>(t, d). (t, FileDiffReply 0 d)) ?ds"
  let ?kept = "filter keptChange twoChanges"
  have h: "tasks ?s 0 = Some (AwaitGitStatus ''ws-1'' ''/tmp/ws-1'' 0)"
    by (simp add: runner_eval)
  have f: "?kept = twoChanges"
    by (simp add: twoChanges_def keptChange_def)
  have l: "length ?ds = length ?kept"
    unfolding f by (simp add: twoChanges_def)
  have s1: "sublist ''2 files'' ''2 files changed (+15 / -2)''"
    unfolding sublist_def by (rule exI [of _ "[]"], rule exI [of _ "'' changed (+15 / -2)''"]) simp
  have s2: "sublist ''+15'' ''2 files changed (+15 / -2)''"
    unfolding sublist_def by (rule exI [of _ "''2 files changed (''"], rule exI [of _ "'' / -2)''"]) simp
  have s3: "sublist ''-2'' ''2 files changed (+15 / -2)''"
    unfolding sublist_def by (rule exI [of _ "''2 files changed (+15 / ''"], rule exI [of _ "'')''"]) simp
  from review_success_summary [OF h l, of 1 None]
  obtain st where
    r: "resolved (run ?evs ?s) 0 = Some st" and ok: "status st = Success"
    and fl: "files st = map2 reviewFile ?kept (map (collectFileDiff \<circ> snd) ?ds)"
    and sm: "summary st =
               (if ?kept = [] then ''No local changes to review.''
                else showNat (length ?kept) @ '' file''
                     @ (if length ?kept = 1 then [] else ''s'')
                     @ '' changed (+'' @ showInt (sum_list (map change_additions ?kept))
                     @ '' / -'' @ showInt (sum_list (map change_deletions ?kept)) @ '')'')"
    by blast
  have n: "length (files st) = 2" unfolding fl f by (simp add: twoChanges_def)
  have len: "length twoChanges = 2" by (simp add: twoChanges_def)
  have t: "summary st = ''2 files changed (+15 / -2)''"
    unfolding sm f len by (simp add: twoChanges_def show_examples)
  show ?thesis using h r ok n t s1 s2 s3 by simp
qed

section \<open>Properties of the Lifecycle Aggregator\<close>

lemma read_read: "fst (read (snd (read k))) = fst (read k)"
  using read_cache [of k] by (simp add: read_def [of "snd (read k)"])

lemma getStatus_fst: "fst (getStatus i k) = (case fst (read k) i of Some s \<Rightarrow> s | None \<Rightarrow> Todo)"
  by (simp add: getStatus_def split_beta)

lemma getStatus_snd: "snd (getStatus i k) = snd (read k)"
  by (simp add: getStatus_def split_beta)

lemma statusOf_store: "store b' = store b \<Longrightarrow> statusOf i b' = statusOf i b"
  by (simp add: statusOf_def)

lemma statusOf_markDone_other:
  "ws_id w \<noteq> i \<Longrightarrow> statusOf i (markDone w b) = statusOf i b"
  by (simp add: markDone_def statusOf_def getStatus_fst read_setStatus Let_def)

lemma statusOf_markDone:
  "ws_id w \<noteq> [] \<Longrightarrow> ws_path w \<noteq> [] \<Longrightarrow> statusOf (ws_id w) (markDone w b) = Done"
  by (simp add: markDone_def statusOf_def getStatus_fst read_setStatus Let_def)

lemma statusOf_hydrated:
  "statusOf i (b\<lparr>clock := c, store := snd (getStatus j (store b))\<rparr>) = statusOf i b"
  by (simp add: statusOf_def getStatus_fst getStatus_snd read_read)

lemma fireTimer_store:
  "store (fireTimer tw b) =
     store (if fst (getStatus (ws_id (snd (snd tw))) (store b)) = InProgress
            then markDone (snd (snd tw))
                   (b\<lparr>clock := fst (snd tw), store := snd (getStatus (ws_id (snd (snd tw))) (store b))\<rparr>)
            else b\<lparr>clock := fst (snd tw), store := snd (getStatus (ws_id (snd (snd tw))) (store b))\<rparr>)"
  by (simp add: fireTimer_def Let_def split_beta)

lemma statusOf_fireTimer_other:
  assumes "ws_id (snd (snd tw)) \<noteq> i"
  shows "statusOf i (fireTimer tw b) = statusOf i b"
proof -
  let ?w = "snd (snd tw)"
  let ?b0 = "b\<lparr>clock := fst (snd tw), store := snd (getStatus (ws_id ?w) (store b))\<rparr>"
  have "statusOf i (fireTimer tw b)
          = statusOf i (if fst (getStatus (ws_id ?w) (store b)) = InProgress
                        then markDone ?w ?b0 else ?b0)"
    by (rule statusOf_store) (rule fireTimer_store)
  also have "\<dots> = statusOf i ?b0"
    using assms by (simp add: statusOf_markDone_other)
  also have "\<dots> = statusOf i b" by (rule statusOf_hydrated)
  finally show ?thesis .
qed

lemma statusOf_fireTimer_own:
  assumes "ws_id (snd (snd tw)) \<noteq> []" "ws_path (snd (snd tw)) \<noteq> []"
      and "statusOf (ws_id (snd (snd tw))) b = InProgress"
  shows "statusOf (ws_id (snd (snd tw))) (fireTimer tw b) = Done"
proof -
  let ?w = "snd (snd tw)"
  let ?b0 = "b\<lparr>clock := fst (snd tw), store := snd (getStatus (ws_id ?w) (store b))\<rparr>"
  have "statusOf (ws_id ?w) (fireTimer tw b)
          = statusOf (ws_id ?w) (if fst (getStatus (ws_id ?w) (store b)) = InProgress
                        then markDone ?w ?b0 else ?b0)"
    by (rule statusOf_store) (rule fireTimer_store)
  also have "\<dots> = statusOf (ws_id ?w) (markDone ?w ?b0)"
    using assms(3) by (simp add: statusOf_def)
  also have "\<dots> = Done" using assms(1,2) by (rule statusOf_markDone)
  finally show ?thesis .
qed

lemma statusOf_fold_others:
  "\<forall>tw \<in> set due. ws_id (snd (snd tw)) \<noteq> i \<Longrightarrow> statusOf i (fold fireTimer due b) = statusOf i b"
  by (induction due arbitrary: b) (simp_all add: statusOf_fireTimer_other)

lemma statusOf_elapse:
  "statusOf i (elapse d b)
     = statusOf i (fold fireTimer (filter (\<lambda>tw. fst (snd tw) \<le> clock b + d) (idleTimers b)) b)"
  by (simp add: elapse_def statusOf_def Let_def)

lemma onActivity_fields:
  "idleTimers (onActivity ws False b)
     = filter (\<lambda>tw. \<not> timerOf (effectRun b) (ws_id ws) tw) (idleTimers b)
       @ [(effectRun b, clock b + 10000, ws)]"
  "idleTimers (onActivity ws True b)
     = filter (\<lambda>tw. \<not> timerOf (effectRun b) (ws_id ws) tw) (idleTimers b)"
  "clock (onActivity ws isBusy b) = clock b"
  "store (onActivity ws isBusy b) = store b"
  "effectRun (onActivity ws isBusy b) = effectRun b"
  by (simp_all add: onActivity_def Let_def)

lemma markDone_fields:
  "idleTimers (markDone w b) = idleTimers b"
  "effectRun (markDone w b) = effectRun b"
  by (simp_all add: markDone_def Let_def)

lemma fireTimer_fields:
  "set (idleTimers (fireTimer tw b)) \<subseteq> set (idleTimers b)"
  "effectRun (fireTimer tw b) = effectRun b"
  by (auto simp: fireTimer_def Let_def split_beta markDone_fields)

lemma fold_fireTimer_fields:
  "set (idleTimers (fold fireTimer due b)) \<subseteq> set (idleTimers b)"
  "effectRun (fold fireTimer due b) = effectRun b"
proof (induction due arbitrary: b)
  case Nil
  { case 1 show ?case by simp }
  { case 2 show ?case by simp }
next
  case (Cons tw due)
  { case 1
    have "set (idleTimers (fold fireTimer due (fireTimer tw b))) \<subseteq> set (idleTimers (fireTimer tw b))"
      by (rule Cons.IH(1))
    also have "\<dots> \<subseteq> set (idleTimers b)" by (rule fireTimer_fields(1))
    finally show ?case by simp }
  { case 2 show ?case using Cons.IH(2) [of "fireTimer tw b"] by (simp add: fireTimer_fields(2)) }
qed

lemma elapse_idleTimers_subset: "set (idleTimers (elapse d b)) \<subseteq> set (idleTimers b)"
  using fold_fireTimer_fields(1) by (simp add: elapse_def Let_def)

lemma elapse_effectRun: "effectRun (elapse d b) = effectRun b"
  by (simp add: elapse_def Let_def fold_fireTimer_fields(2))

lemma statusOf_elapse_no_timer:
  assumes "\<forall>tw \<in> set (idleTimers b). ws_id (snd (snd tw)) \<noteq> i"
  shows "statusOf i (elapse d b) = statusOf i b"
  unfolding statusOf_elapse using assms by (intro statusOf_fold_others) auto

text \<open>
  Within one run of the idle effect, and with no timer of an earlier run pending for the
  workspace, the idle-settle policy is as the contract has it. For a workspace with an id
  and a path whose status is in-progress: an idle signal sets one timer for it,
  10\,000 ms ahead. If at least 10\,000 ms then pass with no other signal, the status is
  \<open>done\<close>. If less has passed, the status is still in-progress; a busy signal at that
  point leaves the workspace without a timer, and however much time passes after it, the
  status stays in-progress.
\<close>

lemma idle_settle_within_run:
  assumes "ws_id ws \<noteq> []" and "ws_path ws \<noteq> []"
      and "statusOf (ws_id ws) b = InProgress"
      and fresh: "\<forall>tw \<in> set (idleTimers b). ws_id (snd (snd tw)) = ws_id ws \<longrightarrow> fst tw = effectRun b"
  shows "filter (\<lambda>tw. ws_id (snd (snd tw)) = ws_id ws) (idleTimers (onActivity ws False b))
           = [(effectRun b, clock b + 10000, ws)]
         \<and> (d \<ge> 10000 \<longrightarrow> statusOf (ws_id ws) (elapse d (onActivity ws False b)) = Done)
         \<and> (d < 10000 \<longrightarrow>
              statusOf (ws_id ws) (elapse d (onActivity ws False b)) = InProgress
              \<and> (\<forall>tw \<in> set (idleTimers (onActivity ws True (elapse d (onActivity ws False b)))).
                    ws_id (snd (snd tw)) \<noteq> ws_id ws)
              \<and> statusOf (ws_id ws)
                    (elapse d' (onActivity ws True (elapse d (onActivity ws False b)))) = InProgress)"
proof (intro conjI impI)
  let ?b1 = "onActivity ws False b"
  let ?others = "filter (\<lambda>tw. \<not> timerOf (effectRun b) (ws_id ws) tw) (idleTimers b)"
  have o: "\<forall>tw \<in> set ?others. ws_id (snd (snd tw)) \<noteq> ws_id ws"
    using fresh by (auto simp: timerOf_def)
  have s1: "statusOf (ws_id ws) ?b1 = InProgress"
    using assms(3) by (simp add: statusOf_def onActivity_fields)
  show "filter (\<lambda>tw. ws_id (snd (snd tw)) = ws_id ws) (idleTimers ?b1) = [(effectRun b, clock b + 10000, ws)]"
    using fresh by (auto simp: onActivity_fields filter_empty_conv timerOf_def)
  have oth: "\<forall>tw \<in> set (filter (\<lambda>tw. fst (snd tw) \<le> clock b + d) ?others). ws_id (snd (snd tw)) \<noteq> ws_id ws"
  proof
    fix tw assume "tw \<in> set (filter (\<lambda>tw. fst (snd tw) \<le> clock b + d) ?others)"
    then have "tw \<in> set ?others" using filter_is_subset by fastforce
    with o show "ws_id (snd (snd tw)) \<noteq> ws_id ws" by blast
  qed
  { assume d: "d \<ge> 10000"
    have due: "filter (\<lambda>tw. fst (snd tw) \<le> clock ?b1 + d) (idleTimers ?b1)
                 = filter (\<lambda>tw. fst (snd tw) \<le> clock b + d) ?others @ [(effectRun b, clock b + 10000, ws)]"
      using d by (simp add: onActivity_fields)
    have "statusOf (ws_id ws) (fold fireTimer (filter (\<lambda>tw. fst (snd tw) \<le> clock b + d) ?others) ?b1)
            = InProgress"
      using statusOf_fold_others [OF oth] s1 by simp
    then have "statusOf (ws_id ws)
                 (fireTimer (effectRun b, clock b + 10000, ws)
                    (fold fireTimer (filter (\<lambda>tw. fst (snd tw) \<le> clock b + d) ?others) ?b1)) = Done"
      using statusOf_fireTimer_own [of "(effectRun b, clock b + 10000, ws)"] assms(1,2) by simp
    then show "statusOf (ws_id ws) (elapse d ?b1) = Done"
      unfolding statusOf_elapse due by simp }
  { assume d: "d < 10000"
    have due: "filter (\<lambda>tw. fst (snd tw) \<le> clock ?b1 + d) (idleTimers ?b1)
                 = filter (\<lambda>tw. fst (snd tw) \<le> clock b + d) ?others"
      using d by (simp add: onActivity_fields)
    show s2: "statusOf (ws_id ws) (elapse d ?b1) = InProgress"
      unfolding statusOf_elapse due using statusOf_fold_others [OF oth] s1 by simp
    let ?b2 = "onActivity ws True (elapse d ?b1)"
    have run: "effectRun (elapse d ?b1) = effectRun b"
      by (simp add: elapse_effectRun onActivity_fields)
    have sub: "set (idleTimers (elapse d ?b1)) \<subseteq> set (idleTimers ?b1)"
      by (rule elapse_idleTimers_subset)
    show none: "\<forall>tw \<in> set (idleTimers ?b2). ws_id (snd (snd tw)) \<noteq> ws_id ws"
    proof
      fix tw assume "tw \<in> set (idleTimers ?b2)"
      then have m: "tw \<in> set (idleTimers (elapse d ?b1))"
        and n: "\<not> timerOf (effectRun b) (ws_id ws) tw"
        by (simp_all add: onActivity_fields run)
      from m sub have m': "tw \<in> set (idleTimers ?b1)" by blast
      have "set (idleTimers ?b1) = set ?others \<union> {(effectRun b, clock b + 10000, ws)}"
        unfolding onActivity_fields(1) by simp
      with m' have "tw \<in> set ?others \<or> tw = (effectRun b, clock b + 10000, ws)" by blast
      then show "ws_id (snd (snd tw)) \<noteq> ws_id ws"
      proof
        assume "tw \<in> set ?others"
        with o show ?thesis by blast
      next
        assume "tw = (effectRun b, clock b + 10000, ws)"
        with n show ?thesis by (simp add: timerOf_def)
      qed
    qed
    have "statusOf (ws_id ws) ?b2 = InProgress"
      using s2 by (simp add: statusOf_def onActivity_fields)
    then show "statusOf (ws_id ws) (elapse d' ?b2) = InProgress"
      using statusOf_elapse_no_timer [OF none] by simp }
qed

lemmas board_eval = busyBoard_def onDerivedStatus_def oneWorkspaceBoard_def workspace1_def
  workspace2_def onActivity_def rerunEffect_def timerOf_def elapse_def fireTimer_def markDone_def
  statusOf_def getStatus_def read_def setStatus_def write_store_def freshStore_def
  autoStartReviewIfDone_def startReview_def launch_def emit_def freshRunner_def Let_def split_beta

text \<open>Within one run, computed: the timer fires after 10\,000 ms, and a busy signal at
  9\,000 ms clears it.\<close>

lemma idle_settle_within_run_example:
  "idleTimers (onActivity workspace1 False busyBoard) = [(0, 10000, workspace1)]"
  "idleTimers (elapse 10000 (onActivity workspace1 False busyBoard)) = []"
  "statusOf ''workspace-1'' (elapse 10000 (onActivity workspace1 False busyBoard)) = Done"
  "idleTimers (onActivity workspace1 True (elapse 9000 (onActivity workspace1 False busyBoard))) = []"
  "statusOf ''workspace-1''
     (elapse 60000 (onActivity workspace1 True (elapse 9000 (onActivity workspace1 False busyBoard))))
     = InProgress"
  by (simp_all add: board_eval)

text \<open>
  C6 at a run of the effect in between. The workspace is in-progress and goes idle: a
  timer is set for 10\,000 ms. After 5\,000 ms the effect runs again. At 9\,000 ms a busy
  signal arrives: the listener of the new run finds no timer in its map, and the timer of
  the earlier run stays pending. At 10\,000 ms it fires, and the status becomes \<open>done\<close>.
\<close>

theorem stale_timer_fires_after_rerun:
  "statusOf ''workspace-1'' busyBoard = InProgress
   \<and> idleTimers idleBoard = [(0, 10000, workspace1)]
   \<and> effectRun rerunBoard = 1 \<and> clock rerunBoard = 5000
   \<and> clock busyAgainBoard = 9000
   \<and> idleTimers busyAgainBoard = [(0, 10000, workspace1)]
   \<and> statusOf ''workspace-1'' busyAgainBoard = InProgress
   \<and> statusOf ''workspace-1'' (elapse 1000 busyAgainBoard) = Done"
  by (simp add: idleBoard_def rerunBoard_def busyAgainBoard_def board_eval)

lemma markDone_pending:
  "reviewPendingCache (store (markDone ws b)) = reviewPendingCache (store b)"
  "pendingItem (store (markDone ws b)) = pendingItem (store b)"
  by (simp_all add: markDone_def Let_def setStatus_fields)

text \<open>
  C2 at a drag of a workspace to the ready-for-review column, whenever React runs the
  updater: the status becomes \<open>done\<close>, but the pending-review flag of the workspace is
  not set.
\<close>

theorem handleDrop_done_pending_unset:
  "statusOf ''workspace-1'' (handleDrop Done ''workspace-1'' (oneWorkspaceBoard\<lparr>reactEager := True\<rparr>)) = Done
   \<and> \<not> fst (isReviewPending ''workspace-1''
            (store (handleDrop Done ''workspace-1'' (oneWorkspaceBoard\<lparr>reactEager := True\<rparr>))))
   \<and> statusOf ''workspace-1'' (handleDrop Done ''workspace-1'' (oneWorkspaceBoard\<lparr>reactEager := False\<rparr>)) = Done
   \<and> \<not> fst (isReviewPending ''workspace-1''
            (store (handleDrop Done ''workspace-1'' (oneWorkspaceBoard\<lparr>reactEager := False\<rparr>))))"
  by (simp add: handleDrop_def oneWorkspaceBoard_def markDone_def statusOf_def getStatus_def
      read_setStatus isReviewPending_def readReviewPending_def setStatus_fields freshStore_def
      Let_def split_beta)

end
